theory Spec2Isabelle
  imports Main "HOL-Library.Word" "HOL-Library.Signed_Division"
begin

unbundle bit_operations_syntax

section \<open>AFSK1200 modem of BeRTOS (bertos/net/afsk.c)\<close>

text \<open>
  A shallow embedding of \<^verbatim>\<open>bertos/net/afsk.c\<close>. The file-level static variables of the
  C source become the fields of two records (one for the state owned by the DAC
  interrupt and the transmit side, one for the state owned by the ADC interrupt and the
  receive side); every function takes the state and returns the new one. Fixed-width C
  integers are machine words: \<^verbatim>\<open>uint8_t\<close> is \<open>8 word\<close>, \<^verbatim>\<open>uint16_t\<close> is \<open>16 word\<close>, and the
  signed \<^verbatim>\<open>int8_t\<close> and \<^verbatim>\<open>int16_t\<close> are words read through \<open>sint\<close>.
\<close>

type_synonym u8 = "8 word"
type_synonym u16 = "16 word"
type_synonym s8 = "8 word"
type_synonym s16 = "16 word"
type_synonym ticks_t = "32 word"

subsection \<open>Configuration and constants\<close>

datatype afsk_filter = AFSK_BUTTERWORTH | AFSK_CHEBYSHEV

text \<open>
  The header \<^verbatim>\<open>cfg/cfg_afsk.h\<close> is not part of the sources at hand, so the
  configuration keys the code reads are the fields of a record that every function
  takes as a parameter. \<open>RXTIMEOUT_TICKS\<close> stands for the value of
  \<^verbatim>\<open>ms_to_ticks(CONFIG_AFSK_RXTIMEOUT)\<close>, whose conversion factor lives in the timer
  driver.
\<close>

record config =
  CONFIG_AFSK_DAC_SAMPLERATE :: nat
  CONFIG_AFSK_FILTER :: afsk_filter
  CONFIG_AFSK_RX_BUFLEN :: nat
  CONFIG_AFSK_TX_BUFLEN :: nat
  CONFIG_AFSK_PREAMBLE_LEN :: nat
  CONFIG_AFSK_TRAILER_LEN :: nat
  CONFIG_AFSK_RXTIMEOUT :: int
  RXTIMEOUT_TICKS :: ticks_t

definition SAMPLERATE :: nat where "SAMPLERATE = 9600"
definition BITRATE :: nat where "BITRATE = 1200"
definition SAMPLEPERBIT :: nat where "SAMPLEPERBIT = SAMPLERATE div BITRATE"
definition PHASE_BIT :: s8 where "PHASE_BIT = 8"
definition PHASE_INC :: s8 where "PHASE_INC = 1"
definition PHASE_MAX :: s8 where "PHASE_MAX = 64"
definition PHASE_THRES :: s8 where "PHASE_THRES = 32"
definition MARK_FREQ :: nat where "MARK_FREQ = 1200"
definition SPACE_FREQ :: nat where "SPACE_FREQ = 2200"
definition SIN_LEN :: u16 where "SIN_LEN = 512"
definition BIT_STUFF_LEN :: u8 where "BIT_STUFF_LEN = 5"

text \<open>
  Modelled from the spec: the three in-band byte values are defined in \<^verbatim>\<open>afsk.h\<close> and
  \<^verbatim>\<open>net/ax25.h\<close>, which are not under the sources; their values are those of the table
  of special bytes in the specification.
\<close>

definition HDLC_FLAG :: u8 where "HDLC_FLAG = 0x7E"
definition HDLC_RESET :: u8 where "HDLC_RESET = 0x7F"
definition AX25_ESC :: u8 where "AX25_ESC = 0x1B"

text \<open>
  Modelled from the spec: the macro \<^verbatim>\<open>DIV_ROUND\<close> of \<^verbatim>\<open>cfg/macros.h\<close> is not under the
  sources; the specification reads it as rounding to the nearest integer
  (\<^verbatim>\<open>round(PREAMBLE_MS * BITRATE / 8000)\<close>), which on non-negative integers is the
  division of the dividend plus half the divisor.
\<close>

definition DIV_ROUND :: "nat \<Rightarrow> nat \<Rightarrow> nat" where
  "DIV_ROUND dividend divisor = (dividend + divisor div 2) div divisor"

definition MARK_INC :: "config \<Rightarrow> u16" where
  "MARK_INC cfg = of_nat (DIV_ROUND (unat SIN_LEN * MARK_FREQ) (CONFIG_AFSK_DAC_SAMPLERATE cfg))"

definition SPACE_INC :: "config \<Rightarrow> u16" where
  "SPACE_INC cfg = of_nat (DIV_ROUND (unat SIN_LEN * SPACE_FREQ) (CONFIG_AFSK_DAC_SAMPLERATE cfg))"

definition DAC_SAMPLEPERBIT :: "config \<Rightarrow> nat" where
  "DAC_SAMPLEPERBIT cfg = CONFIG_AFSK_DAC_SAMPLERATE cfg div BITRATE"

definition SWITCH_TONE :: "config \<Rightarrow> u16 \<Rightarrow> u16" where
  "SWITCH_TONE cfg inc = (if inc = MARK_INC cfg then SPACE_INC cfg else MARK_INC cfg)"

subsection \<open>Sine table and \<^verbatim>\<open>sin_sample\<close>\<close>

definition sin_table :: "u8 list" where
  "sin_table =
   [128, 129, 131, 132, 134, 135, 137, 138, 140, 142, 143, 145, 146, 148, 149, 151,
    152, 154, 155, 157, 158, 160, 162, 163, 165, 166, 167, 169, 170, 172, 173, 175,
    176, 178, 179, 181, 182, 183, 185, 186, 188, 189, 190, 192, 193, 194, 196, 197,
    198, 200, 201, 202, 203, 205, 206, 207, 208, 210, 211, 212, 213, 214, 215, 217,
    218, 219, 220, 221, 222, 223, 224, 225, 226, 227, 228, 229, 230, 231, 232, 233,
    234, 234, 235, 236, 237, 238, 238, 239, 240, 241, 241, 242, 243, 243, 244, 245,
    245, 246, 246, 247, 248, 248, 249, 249, 250, 250, 250, 251, 251, 252, 252, 252,
    253, 253, 253, 253, 254, 254, 254, 254, 254, 255, 255, 255, 255, 255, 255, 255]"

datatype error = AssertFailed

text \<open>
  \<^verbatim>\<open>new_idx\<close> of \<^verbatim>\<open>sin_sample\<close>: the index folded into the first quarter of the wave.
  The C arithmetic is done on \<^verbatim>\<open>int\<close> and stored back into a \<^verbatim>\<open>uint16_t\<close>, which is
  arithmetic modulo \<open>2 ^ 16\<close>.
\<close>

definition sin_index :: "u16 \<Rightarrow> u16" where
  "sin_index idx =
    (let new_idx = idx mod (SIN_LEN div 2)
     in if new_idx \<ge> SIN_LEN div 4 then SIN_LEN div 2 - new_idx - 1 else new_idx)"

text \<open>
  \<^verbatim>\<open>sin_sample\<close>. The \<^verbatim>\<open>ASSERT\<close> is a branch of the model; a table read outside the
  128 entries would be the second error branch, so that no read of the model is out of
  range.
\<close>

definition sin_sample :: "u16 \<Rightarrow> error + u8" where
  "sin_sample idx =
    (if \<not> idx < SIN_LEN then Inl AssertFailed
     else let new_idx = sin_index idx
          in if \<not> unat new_idx < length sin_table then Inl AssertFailed
             else Inr (if idx \<ge> SIN_LEN div 2 then 255 - sin_table ! unat new_idx
                       else sin_table ! unat new_idx))"


subsection \<open>Byte queues\<close>

text \<open>
  Modelled from the spec: \<^verbatim>\<open>struct/fifobuf.h\<close> is not under the sources. The
  specification describes a bounded queue with a capacity known at construction and the
  operations \<^verbatim>\<open>push\<close>, \<^verbatim>\<open>pop\<close>, \<^verbatim>\<open>is_empty\<close> and \<^verbatim>\<open>is_full\<close>. The queue holds one
  element fewer than the buffer it is given (the comment at \<^verbatim>\<open>delay_buf\<close> in the source:
  the FIFO macros need one byte more). \<open>fifo_push\<close> on a full queue and
  \<open>fifo_pop\<close> on an empty one are outside the contract: every call of the model is
  behind the check the source makes, or behind a check that fails the operation.
\<close>

record 'a FIFOBuffer =
  items :: "'a list"
  capacity :: nat

definition fifo_init :: "nat \<Rightarrow> 'a FIFOBuffer" where
  "fifo_init len = \<lparr>items = [], capacity = len - 1\<rparr>"

definition fifo_isempty :: "'a FIFOBuffer \<Rightarrow> bool" where
  "fifo_isempty fb = (items fb = [])"

definition fifo_isfull :: "'a FIFOBuffer \<Rightarrow> bool" where
  "fifo_isfull fb = (capacity fb \<le> length (items fb))"

definition fifo_push :: "'a FIFOBuffer \<Rightarrow> 'a \<Rightarrow> 'a FIFOBuffer" where
  "fifo_push fb c = fb\<lparr>items := items fb @ [c]\<rparr>"

definition fifo_pop :: "'a FIFOBuffer \<Rightarrow> 'a \<times> 'a FIFOBuffer" where
  "fifo_pop fb = (hd (items fb), fb\<lparr>items := tl (items fb)\<rparr>)"

subsection \<open>Receive side: state of the ADC interrupt\<close>

record afsk_rx =
  delay_fifo :: "s8 FIFOBuffer"
  rx_fifo :: "u8 FIFOBuffer"
  iir_x0 :: s16
  iir_x1 :: s16
  iir_y0 :: s16
  iir_y1 :: s16
  sampled_bits :: u8
  found_bits :: u8
  demod_bits :: u8
  curr_phase :: s8
  hdlc_rxstart :: bool
  hdlc_currchar :: u8
  hdlc_bit_idx :: u8

definition BIT_DIFFER :: "u8 \<Rightarrow> u8 \<Rightarrow> u8" where
  "BIT_DIFFER bitline1 bitline2 = (bitline1 XOR bitline2) AND 0x01"

definition EDGE_FOUND :: "u8 \<Rightarrow> u8" where
  "EDGE_FOUND bitline = BIT_DIFFER bitline (drop_bit 1 bitline)"

text \<open>
  \<^verbatim>\<open>hdlc_parse\<close>, branch by branch as in the source. The body of
  \<^verbatim>\<open>if (++hdlc_bit_idx >= 8)\<close>, which stores a complete character, is \<open>hdlc_char_done\<close>.
\<close>

definition hdlc_char_done :: "afsk_rx \<Rightarrow> afsk_rx" where
  "hdlc_char_done s0 =
    (let s = (if hdlc_currchar s0 = HDLC_FLAG
                \<or> hdlc_currchar s0 = HDLC_RESET
                \<or> hdlc_currchar s0 = AX25_ESC
              then (if \<not> fifo_isfull (rx_fifo s0)
                    then s0\<lparr>rx_fifo := fifo_push (rx_fifo s0) AX25_ESC\<rparr>
                    else s0\<lparr>hdlc_rxstart := False\<rparr>)
              else s0);
         s = (if \<not> fifo_isfull (rx_fifo s)
              then s\<lparr>rx_fifo := fifo_push (rx_fifo s) (hdlc_currchar s)\<rparr>
              else s\<lparr>hdlc_rxstart := False\<rparr>)
     in s\<lparr>hdlc_currchar := 0, hdlc_bit_idx := 0\<rparr>)"

definition hdlc_parse :: "bool \<Rightarrow> afsk_rx \<Rightarrow> afsk_rx" where
  "hdlc_parse b s0 =
    (let s = s0\<lparr>demod_bits := push_bit 1 (demod_bits s0) OR (if b then 1 else 0)\<rparr>
     in if demod_bits s = HDLC_FLAG then
          (if \<not> fifo_isfull (rx_fifo s)
           then s\<lparr>rx_fifo := fifo_push (rx_fifo s) HDLC_FLAG, hdlc_rxstart := True\<rparr>
           else s\<lparr>hdlc_rxstart := False\<rparr>)
          \<lparr>hdlc_currchar := 0, hdlc_bit_idx := 0\<rparr>
        else if demod_bits s AND HDLC_RESET = HDLC_RESET then s\<lparr>hdlc_rxstart := False\<rparr>
        else if \<not> hdlc_rxstart s then s
        else if demod_bits s AND 0x3f = 0x3e then s
        else
          let s = (if demod_bits s AND 0x01 \<noteq> 0
                   then s\<lparr>hdlc_currchar := hdlc_currchar s OR 0x80\<rparr> else s);
              s = s\<lparr>hdlc_bit_idx := hdlc_bit_idx s + 1\<rparr>
          in if hdlc_bit_idx s \<ge> 8 then hdlc_char_done s
             else s\<lparr>hdlc_currchar := drop_bit 1 (hdlc_currchar s)\<rparr>)"

text \<open>
  The ADC interrupt, in the three parts of its body.

  First part (discriminator, low-pass filter, sampled bit, delay line). The products and
  sums of the C source are computed on \<^verbatim>\<open>int\<close> and stored into \<^verbatim>\<open>int16_t\<close> variables: the
  model computes on \<open>int\<close> (\<open>sint\<close> of the operands, \<^verbatim>\<open>>>\<close> on a signed value as the
  arithmetic shift, that is the division rounding down) and truncates with \<open>word_of_int\<close>.
  The source pops the delay line and pushes into it without a check; the model fails
  (\<open>None\<close>) where the pop would find it empty or the push would find it full.
\<close>

definition adc_filter :: "config \<Rightarrow> s8 \<Rightarrow> afsk_rx \<Rightarrow> afsk_rx option" where
  "adc_filter cfg curr_sample s0 =
    (if fifo_isempty (delay_fifo s0) then None
     else
       let s = s0\<lparr>iir_x0 := iir_x1 s0\<rparr>;
           (d, fb) = fifo_pop (delay_fifo s);
           s = s\<lparr>delay_fifo := fb,
                 iir_x1 := word_of_int ((sint d * sint curr_sample) div 4)\<rparr>;
           s = s\<lparr>iir_y0 := iir_y1 s\<rparr>;
           s = (case CONFIG_AFSK_FILTER cfg of
                  AFSK_BUTTERWORTH \<Rightarrow>
                    s\<lparr>iir_y1 := word_of_int (sint (iir_x0 s) + sint (iir_x1 s)
                           + sint (iir_y0 s) div 2 + sint (iir_y0 s) div 8
                           + sint (iir_y0 s) div 32)\<rparr>
                | AFSK_CHEBYSHEV \<Rightarrow>
                    s\<lparr>iir_y1 := word_of_int (sint (iir_x0 s) + sint (iir_x1 s)
                           + sint (iir_y0 s) div 2)\<rparr>);
           s = s\<lparr>sampled_bits := push_bit 1 (sampled_bits s)\<rparr>;
           s = s\<lparr>sampled_bits := sampled_bits s OR (if sint (iir_y1 s) > 0 then 1 else 0)\<rparr>
       in if fifo_isfull (delay_fifo s) then None
          else Some (s\<lparr>delay_fifo := fifo_push (delay_fifo s) curr_sample\<rparr>))"

text \<open>
  Second part: the phase adjustment on an edge and the advance by \<^verbatim>\<open>PHASE_BIT\<close>.
  \<^verbatim>\<open>curr_phase\<close> is an \<^verbatim>\<open>int8_t\<close>: comparisons are signed, the additions wrap.
\<close>

definition adc_phase :: "afsk_rx \<Rightarrow> afsk_rx" where
  "adc_phase s0 =
    (let s = (if EDGE_FOUND (sampled_bits s0) \<noteq> 0
              then (if sint (curr_phase s0) < sint PHASE_THRES
                    then s0\<lparr>curr_phase := curr_phase s0 + PHASE_INC\<rparr>
                    else s0\<lparr>curr_phase := curr_phase s0 - PHASE_INC\<rparr>)
              else s0)
     in s\<lparr>curr_phase := curr_phase s + PHASE_BIT\<rparr>)"

text \<open>
  Third part, the body of \<^verbatim>\<open>if (curr_phase >= PHASE_MAX)\<close> up to the call of
  \<^verbatim>\<open>hdlc_parse\<close>: the new state and the argument of the call. The C operator \<^verbatim>\<open>%\<close>
  truncates towards zero, which is \<open>smod\<close> on \<open>int\<close>.
\<close>

definition adc_sample_bit :: "afsk_rx \<Rightarrow> afsk_rx \<times> bool" where
  "adc_sample_bit s0 =
    (let s = s0\<lparr>curr_phase := word_of_int (sint (curr_phase s0) smod sint PHASE_MAX)\<rparr>;
         s = s\<lparr>found_bits := push_bit 1 (found_bits s)\<rparr>;
         bits = sampled_bits s AND 0x07;
         s = (if bits = 0x07 \<or> bits = 0x06 \<or> bits = 0x05 \<or> bits = 0x03
              then s\<lparr>found_bits := found_bits s OR 1\<rparr> else s)
     in (s, \<not> (EDGE_FOUND (found_bits s) \<noteq> 0)))"

text \<open>
  From the words of the specification, to compare the code with: the majority over the
  three most recent entries of \<^verbatim>\<open>sampled_bits\<close> (at least two of them are one).
\<close>

definition majority3 :: "u8 \<Rightarrow> bool" where
  "majority3 x = ((bit x 0 \<and> bit x 1) \<or> (bit x 0 \<and> bit x 2) \<or> (bit x 1 \<and> bit x 2))"

definition adc_isr :: "config \<Rightarrow> s8 \<Rightarrow> afsk_rx \<Rightarrow> afsk_rx option" where
  "adc_isr cfg curr_sample s0 =
    (case adc_filter cfg curr_sample s0 of
       None \<Rightarrow> None
     | Some s1 \<Rightarrow>
         let s2 = adc_phase s1
         in if sint (curr_phase s2) \<ge> sint PHASE_MAX
            then (let (s3, b) = adc_sample_bit s2 in Some (hdlc_parse b s3))
            else Some s2)"


subsection \<open>Transmit side: state of the DAC interrupt\<close>

text \<open>
  \<open>dac_irq\<close> is the one piece of hardware state the model keeps: whether the DAC
  interrupt is enabled (\<^verbatim>\<open>AFSK_DAC_IRQ_START\<close> sets it, \<^verbatim>\<open>AFSK_DAC_IRQ_STOP\<close> clears it).
\<close>

record afsk_tx =
  sample_count :: u8
  curr_out :: u8
  tx_bit :: u8
  bit_stuff :: bool
  stuff_cnt :: u8
  phase_acc :: u16
  phase_inc :: u16
  tx_fifo :: "u8 FIFOBuffer"
  preamble_len :: u16
  trailer_len :: u16
  sending :: bool
  dac_irq :: bool

text \<open>
  \<^verbatim>\<open>afsk_txStart\<close>. The products \<^verbatim>\<open>CONFIG_AFSK_PREAMBLE_LEN * BITRATE\<close> and
  \<^verbatim>\<open>CONFIG_AFSK_TRAILER_LEN * BITRATE\<close> are computed on natural numbers (the type of the
  configuration constants is not in the sources) and the results are stored into
  \<^verbatim>\<open>uint16_t\<close> variables. The body of \<^verbatim>\<open>if (!sending)\<close> and the atomic refresh of
  \<^verbatim>\<open>trailer_len\<close> are two definitions, since the DAC interrupt may run between them.
\<close>

definition tx_start_if :: "config \<Rightarrow> afsk_tx \<Rightarrow> afsk_tx" where
  "tx_start_if cfg s =
    (if \<not> sending s
     then s\<lparr>phase_inc := MARK_INC cfg,
            phase_acc := 0,
            stuff_cnt := 0,
            sending := True,
            preamble_len := of_nat (DIV_ROUND (CONFIG_AFSK_PREAMBLE_LEN cfg * BITRATE) 8000),
            dac_irq := True\<rparr>
     else s)"

definition tx_set_trailer :: "config \<Rightarrow> afsk_tx \<Rightarrow> afsk_tx" where
  "tx_set_trailer cfg s =
    s\<lparr>trailer_len := of_nat (DIV_ROUND (CONFIG_AFSK_TRAILER_LEN cfg * BITRATE) 8000)\<rparr>"

definition afsk_txStart :: "config \<Rightarrow> afsk_tx \<Rightarrow> afsk_tx" where
  "afsk_txStart cfg s = tx_set_trailer cfg (tx_start_if cfg s)"

text \<open>
  The DAC interrupt. \<open>tx_step\<close> tells a part of the handler that returns from the
  interrupt (\<open>TX_RETURN\<close>) from one that falls through to the rest of the body
  (\<open>TX_GO\<close>).
\<close>

datatype tx_step = TX_RETURN afsk_tx | TX_GO afsk_tx

definition dac_stop :: "afsk_tx \<Rightarrow> afsk_tx" where
  "dac_stop s = s\<lparr>dac_irq := False, sending := False\<rparr>"

text \<open>
  The body of \<^verbatim>\<open>if (tx_bit == 0)\<close>, get a new character, in two definitions:
  \<open>tx_next_char\<close> is the part from the reset of the bit-stuffing counter to the choice
  of \<^verbatim>\<open>curr_out\<close> among preamble flag, trailer flag and TX FIFO; \<open>tx_get_char\<close> is the
  whole body, with the two returns and the handling of the escape character.
\<close>

definition tx_next_char :: "afsk_tx \<Rightarrow> afsk_tx" where
  "tx_next_char s0 =
    (let s = (if \<not> bit_stuff s0 then s0\<lparr>stuff_cnt := 0\<rparr> else s0);
         s = s\<lparr>bit_stuff := True\<rparr>
     in if preamble_len s = 0
        then (if fifo_isempty (tx_fifo s)
              then s\<lparr>trailer_len := trailer_len s - 1, curr_out := HDLC_FLAG\<rparr>
              else s\<lparr>curr_out := fst (fifo_pop (tx_fifo s)),
                     tx_fifo := snd (fifo_pop (tx_fifo s))\<rparr>)
        else s\<lparr>preamble_len := preamble_len s - 1, curr_out := HDLC_FLAG\<rparr>)"

definition tx_get_char :: "afsk_tx \<Rightarrow> tx_step" where
  "tx_get_char s0 =
    (if fifo_isempty (tx_fifo s0) \<and> trailer_len s0 = 0 then TX_RETURN (dac_stop s0)
     else
       let s = tx_next_char s0
       in if curr_out s = AX25_ESC
          then (if fifo_isempty (tx_fifo s) then TX_RETURN (dac_stop s)
                else TX_GO (s\<lparr>curr_out := fst (fifo_pop (tx_fifo s)),
                              tx_fifo := snd (fifo_pop (tx_fifo s)),
                              tx_bit := 0x01\<rparr>))
          else if curr_out s = HDLC_FLAG \<or> curr_out s = HDLC_RESET
          then TX_GO (s\<lparr>bit_stuff := False, tx_bit := 0x01\<rparr>)
          else TX_GO (s\<lparr>tx_bit := 0x01\<rparr>))"

text \<open>The bit boundary: a stuffed zero or the next data bit.\<close>

definition tx_send_bit :: "config \<Rightarrow> afsk_tx \<Rightarrow> afsk_tx" where
  "tx_send_bit cfg s =
    (if bit_stuff s \<and> stuff_cnt s \<ge> BIT_STUFF_LEN
     then s\<lparr>stuff_cnt := 0, phase_inc := SWITCH_TONE cfg (phase_inc s)\<rparr>
     else
       (if curr_out s AND tx_bit s \<noteq> 0
        then s\<lparr>stuff_cnt := stuff_cnt s + 1\<rparr>
        else s\<lparr>stuff_cnt := 0, phase_inc := SWITCH_TONE cfg (phase_inc s)\<rparr>)
       \<lparr>tx_bit := push_bit 1 (tx_bit s)\<rparr>)"

text \<open>
  The end of the handler: the new sample. The result carries what \<^verbatim>\<open>AFSK_SET_DAC\<close>
  receives, that is the value of \<^verbatim>\<open>sin_sample(phase_acc)\<close>.
\<close>

definition dac_put_sample :: "afsk_tx \<Rightarrow> afsk_tx \<times> (error + u8) option" where
  "dac_put_sample s0 =
    (let s = s0\<lparr>phase_acc := phase_acc s0 + phase_inc s0\<rparr>;
         s = s\<lparr>phase_acc := phase_acc s mod SIN_LEN\<rparr>
     in (s\<lparr>sample_count := sample_count s - 1\<rparr>, Some (sin_sample (phase_acc s))))"

text \<open>
  The handler: the new state, and the sample given to the DAC (\<open>None\<close> where the
  handler returns without a sample).
\<close>

definition dac_isr :: "config \<Rightarrow> afsk_tx \<Rightarrow> afsk_tx \<times> (error + u8) option" where
  "dac_isr cfg s =
    (if sample_count s = 0
     then (case (if tx_bit s = 0 then tx_get_char s else TX_GO s) of
             TX_RETURN s1 \<Rightarrow> (s1, None)
           | TX_GO s1 \<Rightarrow>
               dac_put_sample
                 ((tx_send_bit cfg s1)\<lparr>sample_count := of_nat (DAC_SAMPLEPERBIT cfg)\<rparr>))
     else dac_put_sample s)"

subsection \<open>Initial state and interleaving of the contexts\<close>

text \<open>
  \<^verbatim>\<open>afsk_init\<close> and the C initialisers: every static variable is zero but \<^verbatim>\<open>phase_inc\<close>;
  the delay line holds \<^verbatim>\<open>SAMPLEPERBIT / 2\<close> zeros; the DAC interrupt is not enabled
  before the first \<^verbatim>\<open>afsk_txStart\<close>.
\<close>

definition init_rx :: "config \<Rightarrow> afsk_rx" where
  "init_rx cfg =
    \<lparr>delay_fifo = (fifo_init (SAMPLEPERBIT div 2 + 1))\<lparr>items := replicate (SAMPLEPERBIT div 2) 0\<rparr>,
     rx_fifo = fifo_init (CONFIG_AFSK_RX_BUFLEN cfg),
     iir_x0 = 0, iir_x1 = 0, iir_y0 = 0, iir_y1 = 0,
     sampled_bits = 0, found_bits = 0, demod_bits = 0, curr_phase = 0,
     hdlc_rxstart = False, hdlc_currchar = 0, hdlc_bit_idx = 0\<rparr>"

definition init_tx :: "config \<Rightarrow> afsk_tx" where
  "init_tx cfg =
    \<lparr>sample_count = 0, curr_out = 0, tx_bit = 0, bit_stuff = False, stuff_cnt = 0,
     phase_acc = 0, phase_inc = MARK_INC cfg,
     tx_fifo = fifo_init (CONFIG_AFSK_TX_BUFLEN cfg),
     preamble_len = 0, trailer_len = 0, sending = False, dac_irq = False\<rparr>"

type_synonym afsk = "afsk_tx \<times> afsk_rx"

definition afsk_init :: "config \<Rightarrow> afsk" where
  "afsk_init cfg = (init_tx cfg, init_rx cfg)"

text \<open>
  What can happen to the modem, one atomic step at a time: the two interrupts, and the
  steps of the main context in \<^verbatim>\<open>afsk_write\<close> (push one byte when the TX FIFO has room,
  then the two parts of \<^verbatim>\<open>afsk_txStart\<close>) and in \<^verbatim>\<open>afsk_read\<close> (pop one byte when the
  RX FIFO has one). A DAC interrupt that is not enabled does not run; a main context
  that waits for the FIFO changes nothing.
\<close>

datatype event =
    ADC_IRQ s8
  | DAC_IRQ
  | WRITE_PUSH u8
  | WRITE_START_IF
  | WRITE_START_TRAILER
  | READ_POP

fun step :: "config \<Rightarrow> event \<Rightarrow> afsk \<Rightarrow> afsk option" where
  "step cfg (ADC_IRQ curr_sample) (t, r) =
     (case adc_isr cfg curr_sample r of None \<Rightarrow> None | Some r1 \<Rightarrow> Some (t, r1))"
| "step cfg DAC_IRQ (t, r) = (if dac_irq t then Some (fst (dac_isr cfg t), r) else Some (t, r))"
| "step cfg (WRITE_PUSH c) (t, r) =
     (if fifo_isfull (tx_fifo t) then Some (t, r)
      else Some (t\<lparr>tx_fifo := fifo_push (tx_fifo t) c\<rparr>, r))"
| "step cfg WRITE_START_IF (t, r) = Some (tx_start_if cfg t, r)"
| "step cfg WRITE_START_TRAILER (t, r) = Some (tx_set_trailer cfg t, r)"
| "step cfg READ_POP (t, r) =
     (if fifo_isempty (rx_fifo r) then Some (t, r)
      else Some (t, r\<lparr>rx_fifo := snd (fifo_pop (rx_fifo r))\<rparr>))"

fun run :: "config \<Rightarrow> event list \<Rightarrow> afsk \<Rightarrow> afsk option" where
  "run cfg [] m = Some m"
| "run cfg (e # es) m = (case step cfg e m of None \<Rightarrow> None | Some m1 \<Rightarrow> run cfg es m1)"


text \<open>
  Conditions on the state that the steps preserve: the delay line holds exactly
  \<^verbatim>\<open>SAMPLEPERBIT / 2\<close> samples between two ADC interrupts (so that the pop and the push
  of the handler stay within the contract of the queue); the two phases are in range;
  the phase increment is one of the two tones; the DAC interrupt is enabled exactly
  while \<^verbatim>\<open>sending\<close> is set, and an idle transmitter is at a character boundary.
\<close>

definition delay_line_ok :: "afsk_rx \<Rightarrow> bool" where
  "delay_line_ok r =
    (length (items (delay_fifo r)) = SAMPLEPERBIT div 2
     \<and> capacity (delay_fifo r) = SAMPLEPERBIT div 2)"

definition phase_ok :: "afsk \<Rightarrow> bool" where
  "phase_ok m =
    (phase_acc (fst m) < SIN_LEN
     \<and> 0 \<le> sint (curr_phase (snd m)) \<and> sint (curr_phase (snd m)) < sint PHASE_MAX)"

definition tone_ok :: "config \<Rightarrow> afsk_tx \<Rightarrow> bool" where
  "tone_ok cfg t = (phase_inc t = MARK_INC cfg \<or> phase_inc t = SPACE_INC cfg)"

definition tx_idle_ok :: "afsk_tx \<Rightarrow> bool" where
  "tx_idle_ok t =
    (dac_irq t = sending t \<and> (\<not> sending t \<longrightarrow> tx_bit t = 0 \<and> sample_count t = 0))"

text \<open>
  The receive side on a silent line: the filter and the bit registers hold zeros, no
  frame is open and the RX FIFO is empty.
\<close>

definition rx_silent :: "afsk_rx \<Rightarrow> bool" where
  "rx_silent r =
    (delay_line_ok r \<and> set (items (delay_fifo r)) \<subseteq> {0}
     \<and> iir_x0 r = 0 \<and> iir_x1 r = 0 \<and> iir_y0 r = 0 \<and> iir_y1 r = 0
     \<and> sampled_bits r = 0 \<and> found_bits r = 0
     \<and> \<not> hdlc_rxstart r \<and> fifo_isempty (rx_fifo r)
     \<and> 0 \<le> sint (curr_phase r) \<and> sint (curr_phase r) < sint PHASE_MAX)"

subsection \<open>Counting the flags of the preamble\<close>

text \<open>
  What one DAC interrupt did is read off the state before it and the state and sample
  it returns. It sent a flag of the preamble iff it started at a character boundary
  (\<^verbatim>\<open>sample_count == 0\<close> and \<^verbatim>\<open>tx_bit == 0\<close>), put out a sample, left \<^verbatim>\<open>HDLC_FLAG\<close> in
  \<^verbatim>\<open>curr_out\<close>, counted \<^verbatim>\<open>preamble_len\<close> down by one, and left the TX FIFO as it was. It
  took a payload byte iff it started at a character boundary and the TX FIFO is
  shorter afterwards.
\<close>

definition flag_emitted :: "config \<Rightarrow> afsk_tx \<Rightarrow> bool" where
  "flag_emitted cfg s =
    (sample_count s = 0 \<and> tx_bit s = 0
     \<and> snd (dac_isr cfg s) \<noteq> None
     \<and> curr_out (fst (dac_isr cfg s)) = HDLC_FLAG
     \<and> preamble_len s \<noteq> 0
     \<and> preamble_len (fst (dac_isr cfg s)) = preamble_len s - 1
     \<and> tx_fifo (fst (dac_isr cfg s)) = tx_fifo s)"

definition payload_fetched :: "config \<Rightarrow> afsk_tx \<Rightarrow> bool" where
  "payload_fetched cfg s =
    (sample_count s = 0 \<and> tx_bit s = 0
     \<and> length (items (tx_fifo (fst (dac_isr cfg s)))) < length (items (tx_fifo s)))"

text \<open>
  \<open>preamble_flags cfg n s\<close> runs the DAC interrupt from \<open>s\<close>, at most \<open>n\<close> times, up
  to the interrupt that takes the first payload byte, and counts the interrupts that
  sent a flag of the preamble. It is \<open>None\<close> if the DAC interrupt is disabled before
  a payload byte is taken (the transmission has stopped), or if \<open>n\<close> interrupts do not
  reach a payload byte.
\<close>

fun preamble_flags :: "config \<Rightarrow> nat \<Rightarrow> afsk_tx \<Rightarrow> nat option" where
  "preamble_flags cfg 0 s = None"
| "preamble_flags cfg (Suc n) s =
    (if \<not> dac_irq s then None
     else if payload_fetched cfg s then Some 0
     else case preamble_flags cfg n (fst (dac_isr cfg s)) of
            None \<Rightarrow> None
          | Some k \<Rightarrow> Some (if flag_emitted cfg s then Suc k else k))"




subsection \<open>The read endpoint\<close>

text \<open>
  \<^verbatim>\<open>afsk_read\<close> runs in the main context while the ADC interrupt fills the RX FIFO and the
  timer advances. The model sees the two through an environment indexed by the number
  of steps the main context has taken: \<open>isr_push env k\<close> are the bytes the deframer
  offers to the RX FIFO during step \<open>k\<close> (a byte is dropped when the FIFO is full, as
  in \<^verbatim>\<open>hdlc_parse\<close>), and \<open>timer_clock env k\<close> is what \<^verbatim>\<open>timer_clock()\<close> returns at step
  \<open>k\<close>. One evaluation of a loop condition and one \<^verbatim>\<open>cpu_relax()\<close> are one step each.
\<close>

record rx_env =
  isr_push :: "nat \<Rightarrow> u8 list"
  timer_clock :: "nat \<Rightarrow> ticks_t"

record reader =
  rd_fifo :: "u8 FIFOBuffer"
  rd_now :: nat

definition isr_deliver :: "u8 FIFOBuffer \<Rightarrow> u8 list \<Rightarrow> u8 FIFOBuffer" where
  "isr_deliver fb cs = foldl (\<lambda>q c. if fifo_isfull q then q else fifo_push q c) fb cs"

definition elapse :: "rx_env \<Rightarrow> reader \<Rightarrow> reader" where
  "elapse env r =
    r\<lparr>rd_fifo := isr_deliver (rd_fifo r) (isr_push env (rd_now r)), rd_now := rd_now r + 1\<rparr>"

text \<open>
  The statement \<^verbatim>\<open>while (fifo_isempty_locked(&rx_fifo));\<close> of the source: a loop with an
  empty body. It may run forever, so its result is an option and \<open>None\<close> stands for
  a loop that does not end.
\<close>

partial_function (option) rx_spin :: "rx_env \<Rightarrow> reader \<Rightarrow> reader option" where
  "rx_spin env r = (if fifo_isempty (rd_fifo r) then rx_spin env (elapse env r) else Some r)"

text \<open>
  The outer loop \<^verbatim>\<open>while (size--)\<close>, by recursion on \<^verbatim>\<open>size\<close>, for the three settings of
  \<^verbatim>\<open>CONFIG_AFSK_RXTIMEOUT\<close> that the preprocessor tells apart (\<open>0\<close>, \<open>-1\<close>, any other
  value). The block after the spin loop runs once per byte: \<^verbatim>\<open>cpu_relax()\<close>, then the
  comparison of the elapsed ticks with the timeout (a signed comparison: \<^verbatim>\<open>ticks_t\<close>,
  declared by the timer driver outside the sources, is taken as a signed 32-bit
  integer) and the return of the count so far, then the pop. The result is the bytes
  stored into the buffer (the function returns their number) and the reader.
\<close>

fun afsk_read_loop ::
  "config \<Rightarrow> rx_env \<Rightarrow> nat \<Rightarrow> u8 list \<Rightarrow> reader \<Rightarrow> (u8 list \<times> reader) option" where
  "afsk_read_loop cfg env 0 buf r = Some (buf, r)"
| "afsk_read_loop cfg env (Suc n) buf r =
    (if CONFIG_AFSK_RXTIMEOUT cfg = 0 \<and> fifo_isempty (rd_fifo r) then Some (buf, r)
     else
       let start = timer_clock env (rd_now r)
       in case rx_spin env r of
            None \<Rightarrow> None
          | Some r1 \<Rightarrow>
              let r2 = elapse env r1
              in if CONFIG_AFSK_RXTIMEOUT cfg \<noteq> - 1
                    \<and> sint (timer_clock env (rd_now r2) - start) > sint (RXTIMEOUT_TICKS cfg)
                 then Some (buf, r2)
                 else afsk_read_loop cfg env n (buf @ [fst (fifo_pop (rd_fifo r2))])
                        (r2\<lparr>rd_fifo := snd (fifo_pop (rd_fifo r2))\<rparr>))"

definition afsk_read :: "config \<Rightarrow> rx_env \<Rightarrow> nat \<Rightarrow> reader \<Rightarrow> (u8 list \<times> reader) option" where
  "afsk_read cfg env len r = afsk_read_loop cfg env len [] r"


subsection \<open>Concrete inputs\<close>

text \<open>
  A configuration (a DAC sample rate of 9600 Hz, a preamble of 300 ms and a trailer of
  50 ms, buffers of 32 bytes, a non-blocking read) and a transmit state at a character
  boundary with given contents of the TX FIFO, on which the theorems are tried.
\<close>

definition cfg_example :: config where
  "cfg_example =
    \<lparr>CONFIG_AFSK_DAC_SAMPLERATE = 9600, CONFIG_AFSK_FILTER = AFSK_CHEBYSHEV,
     CONFIG_AFSK_RX_BUFLEN = 32, CONFIG_AFSK_TX_BUFLEN = 32,
     CONFIG_AFSK_PREAMBLE_LEN = 300, CONFIG_AFSK_TRAILER_LEN = 50,
     CONFIG_AFSK_RXTIMEOUT = 0, RXTIMEOUT_TICKS = 0\<rparr>"

definition tx_at_char :: "u8 list \<Rightarrow> afsk_tx" where
  "tx_at_char cs =
    (init_tx cfg_example)\<lparr>tx_fifo := \<lparr>items = cs, capacity = 31\<rparr>,
                            sending := True, dac_irq := True\<rparr>"

text \<open>
  A receive state inside a frame with seven bits of a character accepted: the
  accumulator, the shift register of demodulated bits and the capacity of the (empty)
  RX FIFO are given.
\<close>

definition rx_at_bit7 :: "u8 \<Rightarrow> u8 \<Rightarrow> nat \<Rightarrow> afsk_rx" where
  "rx_at_bit7 acc bits cap =
    (init_rx cfg_example)\<lparr>rx_fifo := \<lparr>items = [], capacity = cap\<rparr>, demod_bits := bits,
                            hdlc_rxstart := True, hdlc_currchar := acc, hdlc_bit_idx := 7\<rparr>"

text \<open>
  A receive state just after initialisation, with a given sampling phase and a given
  history of sampled bits.
\<close>

definition rx_at_phase :: "s8 \<Rightarrow> u8 \<Rightarrow> afsk_rx" where
  "rx_at_phase p sb = (init_rx cfg_example)\<lparr>sampled_bits := sb, curr_phase := p\<rparr>"

text \<open>A configuration without preamble and trailer.\<close>

definition cfg_no_flags :: config where
  "cfg_no_flags = cfg_example\<lparr>CONFIG_AFSK_PREAMBLE_LEN := 0, CONFIG_AFSK_TRAILER_LEN := 0\<rparr>"




text \<open>
  A read with a timeout of one second on a line on which no frame arrives: the
  deframer pushes nothing, the timer advances by one tick per step of the main context,
  and the RX FIFO is empty when the read starts.
\<close>

definition cfg_timeout :: config where
  "cfg_timeout = cfg_example\<lparr>CONFIG_AFSK_RXTIMEOUT := 1000, RXTIMEOUT_TICKS := 1000\<rparr>"

definition idle_line :: rx_env where
  "idle_line = \<lparr>isr_push = (\<lambda>k. []), timer_clock = (\<lambda>k. of_nat k)\<rparr>"

definition reader_empty :: reader where
  "reader_empty = \<lparr>rd_fifo = fifo_init 32, rd_now = 0\<rparr>"

section \<open>The sine wave\<close>


lemma unat_sin_index:
  "unat (sin_index idx) =
     (if 128 \<le> unat idx mod 256 then 255 - unat idx mod 256 else unat idx mod 256)"
proof -
  have m: "unat (idx mod 256) = unat idx mod 256"
    by (simp add: unat_mod)
  have lt: "unat idx mod 256 < 256" by simp
  have sub: "unat (256 - idx mod 256 - 1) = 255 - unat idx mod 256"
  proof -
    have "256 - idx mod 256 - 1 = 255 - idx mod 256" by simp
    moreover have "idx mod 256 \<le> 255"
      using lt by (simp add: word_le_nat_alt m)
    ultimately show ?thesis
      by (simp add: unat_sub m)
  qed
  show ?thesis
    unfolding sin_index_def SIN_LEN_def Let_def
    using sub by (simp add: word_le_nat_alt m)
qed

lemma sin_index_bound: "unat (sin_index idx) < 128"
  unfolding unat_sin_index by (simp; arith)

lemma unat_half_turn:
  assumes "idx < SIN_LEN"
  shows "unat ((idx + SIN_LEN div 2) mod SIN_LEN) = (unat idx + 256) mod 512"
proof -
  have "unat idx < 512" using assms by (simp add: SIN_LEN_def word_less_nat_alt)
  then have "unat (idx + 256) = unat idx + 256"
    by (simp add: unat_word_ariths)
  then show ?thesis
    by (simp add: SIN_LEN_def unat_mod)
qed

lemma sin_index_shift:
  assumes "idx < SIN_LEN"
  shows "sin_index ((idx + SIN_LEN div 2) mod SIN_LEN) = sin_index idx"
proof -
  have "((unat idx + 256) mod 512) mod 256 = unat idx mod 256"
    by (simp add: mod_mod_cancel)
  then have "unat (sin_index ((idx + SIN_LEN div 2) mod SIN_LEN)) = unat (sin_index idx)"
    by (simp only: unat_sin_index unat_half_turn [OF assms])
  then show ?thesis by (simp only: word_unat_eq_iff)
qed

lemma unat_reflect:
  assumes "idx < SIN_LEN div 2"
  shows "unat (SIN_LEN div 2 - 1 - idx) = 255 - unat idx"
proof -
  have "idx \<le> 255" using assms by (simp add: SIN_LEN_def word_le_nat_alt word_less_nat_alt)
  then show ?thesis by (simp add: SIN_LEN_def unat_sub)
qed

lemma sin_index_reflect:
  assumes "idx < SIN_LEN div 2"
  shows "sin_index (SIN_LEN div 2 - 1 - idx) = sin_index idx"
proof -
  have n: "unat idx < 256" using assms by (simp add: SIN_LEN_def word_less_nat_alt)
  then have "unat (sin_index (SIN_LEN div 2 - 1 - idx)) = unat (sin_index idx)"
    unfolding unat_sin_index unat_reflect [OF assms] by (simp; arith)
  then show ?thesis by (simp only: word_unat_eq_iff)
qed

lemma unat_invert: "unat (255 - x :: u8) = 255 - unat x"
proof -
  have "unat x < 256" using unsigned_less [of x, where 'a = nat] by simp
  then have "x \<le> 255" by (simp add: word_le_nat_alt)
  then show ?thesis by (simp add: unat_sub)
qed


lemma length_sin_table: "length sin_table = 128"
  by (simp add: sin_table_def)

lemma sin_sample_val:
  assumes "idx < SIN_LEN"
  shows "sin_sample idx =
    Inr (if idx \<ge> SIN_LEN div 2 then 255 - sin_table ! unat (sin_index idx)
         else sin_table ! unat (sin_index idx))"
  using assms sin_index_bound [of idx]
  by (simp add: sin_sample_def Let_def length_sin_table)

lemma half_turn_side:
  assumes "idx < SIN_LEN"
  shows "(idx + SIN_LEN div 2) mod SIN_LEN < SIN_LEN"
    and "(SIN_LEN div 2 \<le> (idx + SIN_LEN div 2) mod SIN_LEN) = (\<not> SIN_LEN div 2 \<le> idx)"
proof -
  have n: "unat idx < 512" using assms by (simp add: SIN_LEN_def word_less_nat_alt)
  have h: "unat SIN_LEN = 512" "unat (SIN_LEN div 2) = 256"
    by (simp_all add: SIN_LEN_def)
  show "(idx + SIN_LEN div 2) mod SIN_LEN < SIN_LEN"
    by (simp add: word_less_nat_alt unat_half_turn [OF assms] h)
  show "(SIN_LEN div 2 \<le> (idx + SIN_LEN div 2) mod SIN_LEN) = (\<not> SIN_LEN div 2 \<le> idx)"
  proof (cases "unat idx < 256")
    case True
    then have "(unat idx + 256) mod 512 = unat idx + 256" by simp
    with True show ?thesis
      by (simp add: word_le_nat_alt unat_half_turn [OF assms] h)
  next
    case False
    with n have "(unat idx + 256) mod 512 = unat idx - 256"
      by (simp add: mod_if)
    with False n show ?thesis
      by (simp add: word_le_nat_alt unat_half_turn [OF assms] h)
  qed
qed

text \<open>
  Claim C7. For every index \<open>idx\<close> below \<^verbatim>\<open>SIN_LEN\<close> (512), the samples at \<open>idx\<close> and
  at half a turn further, \<open>(idx + SIN_LEN / 2) mod SIN_LEN\<close>, add up to 255; and for
  every \<open>idx\<close> below \<^verbatim>\<open>SIN_LEN / 2\<close>, the sample at \<open>idx\<close> is the sample at
  \<open>SIN_LEN / 2 - 1 - idx\<close>. The sum is the sum of the two bytes as integers.
\<close>

theorem sin_sample_symmetry:
  assumes "idx < SIN_LEN"
  shows "(\<exists>a b. sin_sample idx = Inr a
            \<and> sin_sample ((idx + SIN_LEN div 2) mod SIN_LEN) = Inr b
            \<and> unat a + unat b = 255)
       \<and> (idx < SIN_LEN div 2 \<longrightarrow> sin_sample idx = sin_sample (SIN_LEN div 2 - 1 - idx))"
proof (intro conjI impI)
  let ?j = "(idx + SIN_LEN div 2) mod SIN_LEN"
  let ?t = "sin_table ! unat (sin_index idx)"
  have le: "unat ?t \<le> 255"
    using unsigned_less [of ?t, where 'a = nat] by simp
  have a: "sin_sample idx = Inr (if idx \<ge> SIN_LEN div 2 then 255 - ?t else ?t)"
    by (rule sin_sample_val [OF assms])
  have b: "sin_sample ?j = Inr (if idx \<ge> SIN_LEN div 2 then ?t else 255 - ?t)"
    by (simp add: sin_sample_val [OF half_turn_side(1) [OF assms]]
        half_turn_side(2) [OF assms] sin_index_shift [OF assms])
  have "unat (if idx \<ge> SIN_LEN div 2 then 255 - ?t else ?t)
      + unat (if idx \<ge> SIN_LEN div 2 then ?t else 255 - ?t) = 255"
    using le by (simp add: unat_invert)
  with a b show "\<exists>a b. sin_sample idx = Inr a \<and> sin_sample ?j = Inr b \<and> unat a + unat b = 255"
    by blast
next
  assume lt: "idx < SIN_LEN div 2"
  let ?r = "SIN_LEN div 2 - 1 - idx"
  have r: "unat ?r = 255 - unat idx" by (rule unat_reflect [OF lt])
  have r1: "?r < SIN_LEN" and r2: "\<not> SIN_LEN div 2 \<le> ?r"
    by (simp_all add: word_less_nat_alt word_le_nat_alt r) (simp_all add: SIN_LEN_def)
  from lt have i2: "\<not> SIN_LEN div 2 \<le> idx" by simp
  show "sin_sample idx = sin_sample ?r"
    by (simp add: sin_sample_val [OF assms] sin_sample_val [OF r1] r2 i2
        sin_index_reflect [OF lt])
qed

theorem sin_sample_symmetry_witness:
  "(100 :: u16) < SIN_LEN \<and> (100 :: u16) < SIN_LEN div 2
   \<and> (\<exists>a b. sin_sample 100 = Inr a \<and> sin_sample 356 = Inr b \<and> unat a + unat b = 255)
   \<and> sin_sample 100 = sin_sample 155"
proof -
  have h: "(100 :: u16) < SIN_LEN" by (simp add: SIN_LEN_def)
  have k: "(100 :: u16) < SIN_LEN div 2" by (simp add: SIN_LEN_def)
  have e1: "((100 :: u16) + SIN_LEN div 2) mod SIN_LEN = 356" by (simp add: SIN_LEN_def)
  have e2: "SIN_LEN div 2 - 1 - (100 :: u16) = 155" by (simp add: SIN_LEN_def)
  show ?thesis
    using sin_sample_symmetry [OF h] h k unfolding e1 e2 by blast
qed


section \<open>The DAC interrupt\<close>

lemma phase_mod_bound: "(x :: u16) mod SIN_LEN < SIN_LEN"
  by (simp add: SIN_LEN_def word_mod_less_divisor)

lemma dac_put_sample_out:
  "\<exists>b. dac_put_sample s = (fst (dac_put_sample s), Some (Inr b))
       \<and> sin_sample (phase_acc (fst (dac_put_sample s))) = Inr b
       \<and> phase_acc (fst (dac_put_sample s)) < SIN_LEN"
  by (simp add: dac_put_sample_def Let_def phase_mod_bound sin_sample_val)

text \<open>
  Claim C10. Every call of \<^verbatim>\<open>sin_sample\<close> made by the DAC interrupt satisfies the
  asserted precondition: whatever the state, the handler either returns without a
  sample, or the index it passes (the new \<^verbatim>\<open>phase_acc\<close>, just reduced modulo
  \<^verbatim>\<open>SIN_LEN\<close>) is below \<^verbatim>\<open>SIN_LEN\<close>, the table index computed from it is within the 128
  entries of the table, and \<^verbatim>\<open>sin_sample\<close> returns a sample and not a failed assertion.
\<close>

theorem dac_isr_sin_sample_in_range:
  "snd (dac_isr cfg s) = None
   \<or> (phase_acc (fst (dac_isr cfg s)) < SIN_LEN
      \<and> unat (sin_index (phase_acc (fst (dac_isr cfg s)))) < length sin_table
      \<and> (\<exists>b. snd (dac_isr cfg s) = Some (Inr b)
              \<and> sin_sample (phase_acc (fst (dac_isr cfg s))) = Inr b))"
proof -
  have put: "\<And>t. phase_acc (fst (dac_put_sample t)) < SIN_LEN
      \<and> unat (sin_index (phase_acc (fst (dac_put_sample t)))) < length sin_table
      \<and> (\<exists>b. snd (dac_put_sample t) = Some (Inr b)
              \<and> sin_sample (phase_acc (fst (dac_put_sample t))) = Inr b)"
  proof -
    fix t
    obtain b where "dac_put_sample t = (fst (dac_put_sample t), Some (Inr b))"
      and "sin_sample (phase_acc (fst (dac_put_sample t))) = Inr b"
      and "phase_acc (fst (dac_put_sample t)) < SIN_LEN"
      using dac_put_sample_out [of t] by blast
    then show "?thesis t"
      using sin_index_bound [of "phase_acc (fst (dac_put_sample t))"]
      by (metis length_sin_table snd_conv)
  qed
  show ?thesis
  proof (cases "sample_count s = 0")
    case False
    then have "dac_isr cfg s = dac_put_sample s" by (simp add: dac_isr_def)
    then show ?thesis using put [of s] by simp
  next
    case True
    show ?thesis
    proof (cases "if tx_bit s = 0 then tx_get_char s else TX_GO s")
      case (TX_RETURN s1)
      with True have "dac_isr cfg s = (s1, None)" by (simp add: dac_isr_def)
      then show ?thesis by simp
    next
      case (TX_GO s1)
      with True have "dac_isr cfg s = dac_put_sample
          ((tx_send_bit cfg s1)\<lparr>sample_count := of_nat (DAC_SAMPLEPERBIT cfg)\<rparr>)"
        by (simp add: dac_isr_def)
      then show ?thesis using put by simp
    qed
  qed
qed


lemma dac_isr_no_boundary:
  "sample_count s \<noteq> 0 \<Longrightarrow> dac_isr cfg s = dac_put_sample s"
  by (simp add: dac_isr_def)

lemma dac_isr_return:
  "sample_count s = 0 \<Longrightarrow> (if tx_bit s = 0 then tx_get_char s else TX_GO s) = TX_RETURN s1
   \<Longrightarrow> dac_isr cfg s = (s1, None)"
  by (simp add: dac_isr_def)

lemma dac_isr_go:
  "sample_count s = 0 \<Longrightarrow> (if tx_bit s = 0 then tx_get_char s else TX_GO s) = TX_GO s1
   \<Longrightarrow> dac_isr cfg s =
       dac_put_sample ((tx_send_bit cfg s1)\<lparr>sample_count := of_nat (DAC_SAMPLEPERBIT cfg)\<rparr>)"
  by (simp add: dac_isr_def)

lemma dac_put_sample_fields:
  "curr_out (fst (dac_put_sample s)) = curr_out s"
  "tx_bit (fst (dac_put_sample s)) = tx_bit s"
  "bit_stuff (fst (dac_put_sample s)) = bit_stuff s"
  "stuff_cnt (fst (dac_put_sample s)) = stuff_cnt s"
  "phase_inc (fst (dac_put_sample s)) = phase_inc s"
  "tx_fifo (fst (dac_put_sample s)) = tx_fifo s"
  "preamble_len (fst (dac_put_sample s)) = preamble_len s"
  "trailer_len (fst (dac_put_sample s)) = trailer_len s"
  "sending (fst (dac_put_sample s)) = sending s"
  "dac_irq (fst (dac_put_sample s)) = dac_irq s"
  "sample_count (fst (dac_put_sample s)) = sample_count s - 1"
  "snd (dac_put_sample s) \<noteq> None"
  by (simp_all add: dac_put_sample_def Let_def)

lemma tx_send_bit_fields:
  "curr_out (tx_send_bit cfg s) = curr_out s"
  "bit_stuff (tx_send_bit cfg s) = bit_stuff s"
  "tx_fifo (tx_send_bit cfg s) = tx_fifo s"
  "preamble_len (tx_send_bit cfg s) = preamble_len s"
  "trailer_len (tx_send_bit cfg s) = trailer_len s"
  "sending (tx_send_bit cfg s) = sending s"
  "dac_irq (tx_send_bit cfg s) = dac_irq s"
  "phase_acc (tx_send_bit cfg s) = phase_acc s"
  by (simp_all add: tx_send_bit_def)

lemma tx_next_char_bit_stuff: "bit_stuff (tx_next_char s)"
  by (simp add: tx_next_char_def Let_def)

lemma tx_next_char_escape:
  assumes "curr_out (tx_next_char s) = AX25_ESC"
  shows "preamble_len s = 0 \<and> \<not> fifo_isempty (tx_fifo s)
         \<and> items (tx_fifo s) = AX25_ESC # items (tx_fifo (tx_next_char s))"
proof -
  have ne: "HDLC_FLAG \<noteq> AX25_ESC" by (simp add: HDLC_FLAG_def AX25_ESC_def)
  from assms ne have p: "preamble_len s = 0" and f: "\<not> fifo_isempty (tx_fifo s)"
    by (auto simp add: tx_next_char_def Let_def split: if_splits)
  from f obtain c cs where i: "items (tx_fifo s) = c # cs"
    by (cases "items (tx_fifo s)") (simp_all add: fifo_isempty_def)
  from assms p f i have "c = AX25_ESC" "items (tx_fifo (tx_next_char s)) = cs"
    by (cases "bit_stuff s"; simp add: tx_next_char_def Let_def fifo_pop_def fifo_isempty_def)+
  with p f i show ?thesis by simp
qed

text \<open>
  Claim C3. In every state in which the DAC interrupt fetches a new character
  (\<^verbatim>\<open>sample_count == 0\<close>, \<^verbatim>\<open>tx_bit == 0\<close>, and the transmission has not ended) and the
  character obtained is \<^verbatim>\<open>AX25_ESC\<close> (it can only come from the TX FIFO, after the
  preamble): if the TX FIFO is then empty, the handler disables the DAC interrupt,
  clears \<^verbatim>\<open>sending\<close> and returns without a sample; if it is not, the next byte of the
  FIFO is popped and replaces \<^verbatim>\<open>curr_out\<close> as a literal (bit stuffing stays enabled for
  it), and a sample is put out.
\<close>

theorem dac_isr_escape:
  assumes "sample_count s = 0" and "tx_bit s = 0"
    and "\<not> (fifo_isempty (tx_fifo s) \<and> trailer_len s = 0)"
    and "curr_out (tx_next_char s) = AX25_ESC"
  shows "preamble_len s = 0
       \<and> items (tx_fifo s) = AX25_ESC # items (tx_fifo (tx_next_char s))
       \<and> (fifo_isempty (tx_fifo (tx_next_char s)) \<longrightarrow>
           dac_isr cfg s = (dac_stop (tx_next_char s), None)
           \<and> \<not> dac_irq (fst (dac_isr cfg s)) \<and> \<not> sending (fst (dac_isr cfg s)))
       \<and> (\<not> fifo_isempty (tx_fifo (tx_next_char s)) \<longrightarrow>
           curr_out (fst (dac_isr cfg s)) = hd (items (tx_fifo (tx_next_char s)))
           \<and> items (tx_fifo (fst (dac_isr cfg s))) = tl (items (tx_fifo (tx_next_char s)))
           \<and> bit_stuff (fst (dac_isr cfg s))
           \<and> snd (dac_isr cfg s) \<noteq> None)"
proof (intro conjI impI)
  show "preamble_len s = 0"
    and "items (tx_fifo s) = AX25_ESC # items (tx_fifo (tx_next_char s))"
    using tx_next_char_escape [OF assms(4)] by simp_all
next
  assume e: "fifo_isempty (tx_fifo (tx_next_char s))"
  from assms(3) have "tx_get_char s = TX_RETURN (dac_stop (tx_next_char s))"
    unfolding tx_get_char_def Let_def using e assms(4) by auto
  with assms(2) have "(if tx_bit s = 0 then tx_get_char s else TX_GO s)
      = TX_RETURN (dac_stop (tx_next_char s))"
    by simp
  from dac_isr_return [OF assms(1) this]
  show "dac_isr cfg s = (dac_stop (tx_next_char s), None)"
    and "\<not> dac_irq (fst (dac_isr cfg s))" and "\<not> sending (fst (dac_isr cfg s))"
    by (simp_all add: dac_stop_def)
next
  assume e: "\<not> fifo_isempty (tx_fifo (tx_next_char s))"
  let ?n = "tx_next_char s"
  from assms(3) have "tx_get_char s
      = TX_GO (?n\<lparr>curr_out := fst (fifo_pop (tx_fifo ?n)),
                   tx_fifo := snd (fifo_pop (tx_fifo ?n)), tx_bit := 0x01\<rparr>)"
    unfolding tx_get_char_def Let_def using e assms(4) by auto
  with assms(2) have "(if tx_bit s = 0 then tx_get_char s else TX_GO s)
      = TX_GO (?n\<lparr>curr_out := fst (fifo_pop (tx_fifo ?n)),
                   tx_fifo := snd (fifo_pop (tx_fifo ?n)), tx_bit := 0x01\<rparr>)"
    by simp
  from dac_isr_go [OF assms(1) this]
  show "curr_out (fst (dac_isr cfg s)) = hd (items (tx_fifo (tx_next_char s)))"
    and "items (tx_fifo (fst (dac_isr cfg s))) = tl (items (tx_fifo (tx_next_char s)))"
    and "bit_stuff (fst (dac_isr cfg s))"
    and "snd (dac_isr cfg s) \<noteq> None"
    by (simp_all add: dac_put_sample_fields tx_send_bit_fields fifo_pop_def
        tx_next_char_bit_stuff)
qed

lemma tx_at_char_esc:
  "sample_count (tx_at_char cs) = 0" "tx_bit (tx_at_char cs) = 0"
  "\<not> (fifo_isempty (tx_fifo (tx_at_char (c # cs))) \<and> trailer_len (tx_at_char (c # cs)) = 0)"
  "tx_next_char (tx_at_char (c # cs))
     = (tx_at_char cs)\<lparr>bit_stuff := True, curr_out := c\<rparr>"
  by (simp_all add: tx_at_char_def init_tx_def fifo_isempty_def tx_next_char_def Let_def
      fifo_pop_def)

theorem dac_isr_escape_witness:
  "sample_count (tx_at_char [AX25_ESC]) = 0 \<and> tx_bit (tx_at_char [AX25_ESC]) = 0
   \<and> \<not> (fifo_isempty (tx_fifo (tx_at_char [AX25_ESC])) \<and> trailer_len (tx_at_char [AX25_ESC]) = 0)
   \<and> curr_out (tx_next_char (tx_at_char [AX25_ESC])) = AX25_ESC
   \<and> fifo_isempty (tx_fifo (tx_next_char (tx_at_char [AX25_ESC])))
   \<and> snd (dac_isr cfg_example (tx_at_char [AX25_ESC])) = None
   \<and> \<not> sending (fst (dac_isr cfg_example (tx_at_char [AX25_ESC])))
   \<and> \<not> dac_irq (fst (dac_isr cfg_example (tx_at_char [AX25_ESC])))
   \<and> sample_count (tx_at_char [AX25_ESC, 0x41]) = 0 \<and> tx_bit (tx_at_char [AX25_ESC, 0x41]) = 0
   \<and> \<not> (fifo_isempty (tx_fifo (tx_at_char [AX25_ESC, 0x41]))
          \<and> trailer_len (tx_at_char [AX25_ESC, 0x41]) = 0)
   \<and> curr_out (tx_next_char (tx_at_char [AX25_ESC, 0x41])) = AX25_ESC
   \<and> \<not> fifo_isempty (tx_fifo (tx_next_char (tx_at_char [AX25_ESC, 0x41])))
   \<and> curr_out (fst (dac_isr cfg_example (tx_at_char [AX25_ESC, 0x41]))) = 0x41
   \<and> items (tx_fifo (fst (dac_isr cfg_example (tx_at_char [AX25_ESC, 0x41])))) = []"
proof -
  let ?a = "tx_at_char [AX25_ESC]" and ?b = "tx_at_char [AX25_ESC, 0x41]"
  have a: "sample_count ?a = 0" "tx_bit ?a = 0"
    "\<not> (fifo_isempty (tx_fifo ?a) \<and> trailer_len ?a = 0)"
    "curr_out (tx_next_char ?a) = AX25_ESC"
    by (simp_all add: tx_at_char_esc)
  have b: "sample_count ?b = 0" "tx_bit ?b = 0"
    "\<not> (fifo_isempty (tx_fifo ?b) \<and> trailer_len ?b = 0)"
    "curr_out (tx_next_char ?b) = AX25_ESC"
    by (simp_all add: tx_at_char_esc)
  have ea: "fifo_isempty (tx_fifo (tx_next_char ?a))"
    and eb: "\<not> fifo_isempty (tx_fifo (tx_next_char ?b))"
    and hb: "hd (items (tx_fifo (tx_next_char ?b))) = 0x41"
      "tl (items (tx_fifo (tx_next_char ?b))) = []"
    by (simp_all add: tx_at_char_esc) (simp_all add: tx_at_char_def fifo_isempty_def)
  show ?thesis
    using dac_isr_escape [OF a, of cfg_example] dac_isr_escape [OF b, of cfg_example]
      a b ea eb hb
    by (simp add: dac_stop_def)
qed


subsection \<open>The bit boundary\<close>

lemma SWITCH_TONE_toggle:
  "SWITCH_TONE cfg (MARK_INC cfg) = SPACE_INC cfg"
  "SWITCH_TONE cfg (SPACE_INC cfg) = MARK_INC cfg"
  by (simp_all add: SWITCH_TONE_def)

text \<open>
  Claim C4. At every bit boundary of the DAC interrupt (\<^verbatim>\<open>sample_count == 0\<close>, with
  \<open>s1\<close> the state after the fetch of a character, if there was one): if \<^verbatim>\<open>bit_stuff\<close>
  holds and \<^verbatim>\<open>stuff_cnt >= 5\<close>, a stuffed zero is sent (\<^verbatim>\<open>stuff_cnt\<close> becomes 0,
  \<^verbatim>\<open>phase_inc\<close> switches tone, \<^verbatim>\<open>tx_bit\<close> stays); otherwise the data bit
  \<^verbatim>\<open>curr_out & tx_bit\<close> is sent (a one keeps \<^verbatim>\<open>phase_inc\<close> and increments \<^verbatim>\<open>stuff_cnt\<close>,
  a zero switches tone and resets \<^verbatim>\<open>stuff_cnt\<close>) and \<^verbatim>\<open>tx_bit\<close> is shifted left by one.
  Switching tone takes \<^verbatim>\<open>MARK_INC\<close> to \<^verbatim>\<open>SPACE_INC\<close> and \<^verbatim>\<open>SPACE_INC\<close> to \<^verbatim>\<open>MARK_INC\<close>.
\<close>

theorem dac_isr_bit_boundary:
  assumes "sample_count s = 0"
    and "(if tx_bit s = 0 then tx_get_char s else TX_GO s) = TX_GO s1"
  shows "(bit_stuff s1 \<and> stuff_cnt s1 \<ge> BIT_STUFF_LEN \<longrightarrow>
            stuff_cnt (fst (dac_isr cfg s)) = 0
          \<and> phase_inc (fst (dac_isr cfg s)) = SWITCH_TONE cfg (phase_inc s1)
          \<and> tx_bit (fst (dac_isr cfg s)) = tx_bit s1)
       \<and> (\<not> (bit_stuff s1 \<and> stuff_cnt s1 \<ge> BIT_STUFF_LEN) \<and> curr_out s1 AND tx_bit s1 \<noteq> 0 \<longrightarrow>
            stuff_cnt (fst (dac_isr cfg s)) = stuff_cnt s1 + 1
          \<and> phase_inc (fst (dac_isr cfg s)) = phase_inc s1
          \<and> tx_bit (fst (dac_isr cfg s)) = push_bit 1 (tx_bit s1))
       \<and> (\<not> (bit_stuff s1 \<and> stuff_cnt s1 \<ge> BIT_STUFF_LEN) \<and> curr_out s1 AND tx_bit s1 = 0 \<longrightarrow>
            stuff_cnt (fst (dac_isr cfg s)) = 0
          \<and> phase_inc (fst (dac_isr cfg s)) = SWITCH_TONE cfg (phase_inc s1)
          \<and> tx_bit (fst (dac_isr cfg s)) = push_bit 1 (tx_bit s1))
       \<and> SWITCH_TONE cfg (MARK_INC cfg) = SPACE_INC cfg
       \<and> SWITCH_TONE cfg (SPACE_INC cfg) = MARK_INC cfg"
proof -
  let ?t = "(tx_send_bit cfg s1)\<lparr>sample_count := of_nat (DAC_SAMPLEPERBIT cfg)\<rparr>"
  have d: "dac_isr cfg s = dac_put_sample ?t"
    by (rule dac_isr_go [OF assms])
  have f: "stuff_cnt (fst (dac_isr cfg s)) = stuff_cnt (tx_send_bit cfg s1)"
    "phase_inc (fst (dac_isr cfg s)) = phase_inc (tx_send_bit cfg s1)"
    "tx_bit (fst (dac_isr cfg s)) = tx_bit (tx_send_bit cfg s1)"
    unfolding d by (simp_all add: dac_put_sample_fields)
  show ?thesis
    unfolding f by (simp add: tx_send_bit_def SWITCH_TONE_toggle)
qed

lemma tx_at_char_plain:
  "c \<noteq> AX25_ESC \<Longrightarrow> c \<noteq> HDLC_FLAG \<Longrightarrow> c \<noteq> HDLC_RESET \<Longrightarrow>
   tx_get_char (tx_at_char (c # cs))
     = TX_GO ((tx_at_char cs)\<lparr>bit_stuff := True, curr_out := c, tx_bit := 0x01\<rparr>)"
  by (simp add: tx_get_char_def tx_at_char_esc Let_def)

theorem dac_isr_bit_boundary_witness:
  "sample_count (tx_at_char [0x41]) = 0
   \<and> (if tx_bit (tx_at_char [0x41]) = 0 then tx_get_char (tx_at_char [0x41])
       else TX_GO (tx_at_char [0x41]))
      = TX_GO ((tx_at_char [])\<lparr>bit_stuff := True, curr_out := 0x41, tx_bit := 0x01\<rparr>)
   \<and> stuff_cnt (fst (dac_isr cfg_example (tx_at_char [0x41]))) = 1
   \<and> phase_inc (fst (dac_isr cfg_example (tx_at_char [0x41]))) = MARK_INC cfg_example
   \<and> tx_bit (fst (dac_isr cfg_example (tx_at_char [0x41]))) = 0x02
   \<and> sample_count ((tx_at_char [])\<lparr>curr_out := 0x41, tx_bit := 0x02\<rparr>) = 0
   \<and> stuff_cnt (fst (dac_isr cfg_example ((tx_at_char [])\<lparr>curr_out := 0x41, tx_bit := 0x02\<rparr>))) = 0
   \<and> phase_inc (fst (dac_isr cfg_example ((tx_at_char [])\<lparr>curr_out := 0x41, tx_bit := 0x02\<rparr>)))
        = SPACE_INC cfg_example
   \<and> tx_bit (fst (dac_isr cfg_example ((tx_at_char [])\<lparr>curr_out := 0x41, tx_bit := 0x02\<rparr>))) = 0x04
   \<and> sample_count ((tx_at_char [])\<lparr>bit_stuff := True, stuff_cnt := 5, curr_out := 0xFF,
         tx_bit := 0x20\<rparr>) = 0
   \<and> stuff_cnt (fst (dac_isr cfg_example ((tx_at_char [])\<lparr>bit_stuff := True, stuff_cnt := 5,
         curr_out := 0xFF, tx_bit := 0x20\<rparr>))) = 0
   \<and> phase_inc (fst (dac_isr cfg_example ((tx_at_char [])\<lparr>bit_stuff := True, stuff_cnt := 5,
         curr_out := 0xFF, tx_bit := 0x20\<rparr>))) = SPACE_INC cfg_example
   \<and> tx_bit (fst (dac_isr cfg_example ((tx_at_char [])\<lparr>bit_stuff := True, stuff_cnt := 5,
         curr_out := 0xFF, tx_bit := 0x20\<rparr>))) = 0x20"
proof -
  let ?a = "tx_at_char [0x41]"
  let ?a1 = "(tx_at_char [])\<lparr>bit_stuff := True, curr_out := 0x41, tx_bit := 0x01\<rparr>"
  let ?b = "(tx_at_char [])\<lparr>curr_out := 0x41, tx_bit := 0x02\<rparr>"
  let ?c = "(tx_at_char [])\<lparr>bit_stuff := True, stuff_cnt := 5, curr_out := 0xFF, tx_bit := 0x20\<rparr>"
  have a: "sample_count ?a = 0"
    "(if tx_bit ?a = 0 then tx_get_char ?a else TX_GO ?a) = TX_GO ?a1"
    by (simp_all add: tx_at_char_esc tx_at_char_plain AX25_ESC_def HDLC_FLAG_def HDLC_RESET_def)
  have b: "sample_count ?b = 0" "(if tx_bit ?b = 0 then tx_get_char ?b else TX_GO ?b) = TX_GO ?b"
    by (simp_all add: tx_at_char_esc)
  have c: "sample_count ?c = 0" "(if tx_bit ?c = 0 then tx_get_char ?c else TX_GO ?c) = TX_GO ?c"
    by (simp_all add: tx_at_char_esc)
  have v: "stuff_cnt ?a1 = 0" "phase_inc ?a1 = MARK_INC cfg_example" "bit_stuff ?a1"
    "phase_inc ?b = MARK_INC cfg_example" "\<not> bit_stuff ?b"
    "phase_inc ?c = MARK_INC cfg_example"
    by (simp_all add: tx_at_char_def init_tx_def)
  show ?thesis
    using dac_isr_bit_boundary [OF a, of cfg_example] dac_isr_bit_boundary [OF b, of cfg_example]
      dac_isr_bit_boundary [OF c, of cfg_example] a b c v
    by (simp add: BIT_STUFF_LEN_def)
qed


section \<open>The HDLC deframer\<close>

lemma hdlc_parse_accept:
  fixes s :: afsk_rx and b :: bool
  defines "d \<equiv> push_bit 1 (demod_bits s) OR (if b then 1 else 0)"
  assumes "hdlc_rxstart s"
    and "d \<noteq> HDLC_FLAG" and "d AND HDLC_RESET \<noteq> HDLC_RESET" and "d AND 0x3f \<noteq> 0x3e"
    and "hdlc_bit_idx s + 1 \<ge> 8"
  shows "hdlc_parse b s =
    hdlc_char_done (s\<lparr>demod_bits := d,
       hdlc_currchar := (if d AND 0x01 \<noteq> 0 then hdlc_currchar s OR 0x80 else hdlc_currchar s),
       hdlc_bit_idx := hdlc_bit_idx s + 1\<rparr>)"
  using assms unfolding d_def hdlc_parse_def
  by (cases b) (simp_all add: Let_def)

lemma hdlc_char_done_fields:
  "hdlc_currchar (hdlc_char_done s) = 0"
  "hdlc_bit_idx (hdlc_char_done s) = 0"
  "demod_bits (hdlc_char_done s) = demod_bits s"
  "curr_phase (hdlc_char_done s) = curr_phase s"
  "delay_fifo (hdlc_char_done s) = delay_fifo s"
  by (simp_all add: hdlc_char_done_def Let_def)

lemma hdlc_char_done_special:
  assumes "hdlc_currchar s = HDLC_FLAG \<or> hdlc_currchar s = HDLC_RESET \<or> hdlc_currchar s = AX25_ESC"
    and "hdlc_rxstart s"
  shows "\<not> fifo_isfull (rx_fifo s) \<and> \<not> fifo_isfull (fifo_push (rx_fifo s) AX25_ESC) \<longrightarrow>
            rx_fifo (hdlc_char_done s) = fifo_push (fifo_push (rx_fifo s) AX25_ESC) (hdlc_currchar s)
            \<and> hdlc_rxstart (hdlc_char_done s)"
    and "\<not> fifo_isfull (rx_fifo s) \<and> fifo_isfull (fifo_push (rx_fifo s) AX25_ESC) \<longrightarrow>
            rx_fifo (hdlc_char_done s) = fifo_push (rx_fifo s) AX25_ESC
            \<and> \<not> hdlc_rxstart (hdlc_char_done s)"
    and "fifo_isfull (rx_fifo s) \<longrightarrow>
            rx_fifo (hdlc_char_done s) = rx_fifo s \<and> \<not> hdlc_rxstart (hdlc_char_done s)"
  using assms by (simp_all add: hdlc_char_done_def Let_def)

lemma hdlc_char_done_plain:
  assumes "\<not> (hdlc_currchar s = HDLC_FLAG \<or> hdlc_currchar s = HDLC_RESET \<or> hdlc_currchar s = AX25_ESC)"
    and "hdlc_rxstart s"
  shows "\<not> fifo_isfull (rx_fifo s) \<longrightarrow>
            rx_fifo (hdlc_char_done s) = fifo_push (rx_fifo s) (hdlc_currchar s)
            \<and> hdlc_rxstart (hdlc_char_done s)"
    and "fifo_isfull (rx_fifo s) \<longrightarrow>
            rx_fifo (hdlc_char_done s) = rx_fifo s \<and> \<not> hdlc_rxstart (hdlc_char_done s)"
  using assms by (simp_all add: hdlc_char_done_def Let_def)

text \<open>
  Claim C5. In \<^verbatim>\<open>hdlc_parse\<close>, when \<^verbatim>\<open>hdlc_rxstart\<close> is true and the eighth bit of a
  character is accepted (the shifted \<^verbatim>\<open>demod_bits\<close>, \<open>d\<close>, is no flag, no reset and no
  stuffed bit, and the incremented bit index reaches 8), with \<open>c\<close> the assembled
  character: if \<open>c\<close> is \<^verbatim>\<open>HDLC_FLAG\<close>, \<^verbatim>\<open>HDLC_RESET\<close> or \<^verbatim>\<open>AX25_ESC\<close>, then \<^verbatim>\<open>AX25_ESC\<close> is
  pushed into the RX FIFO before \<open>c\<close>; each of the two pushes is skipped, and
  \<^verbatim>\<open>hdlc_rxstart\<close> cleared, if the FIFO is full at that moment; in every case the
  accumulator and the bit index are zero afterwards.
\<close>

theorem hdlc_parse_eighth_bit:
  fixes s :: afsk_rx and b :: bool
  defines "d \<equiv> push_bit 1 (demod_bits s) OR (if b then 1 else 0)"
  defines "c \<equiv> (if d AND 0x01 \<noteq> 0 then hdlc_currchar s OR 0x80 else hdlc_currchar s)"
  defines "q \<equiv> rx_fifo s"
  defines "s' \<equiv> hdlc_parse b s"
  assumes "hdlc_rxstart s"
    and "d \<noteq> HDLC_FLAG" and "d AND HDLC_RESET \<noteq> HDLC_RESET" and "d AND 0x3f \<noteq> 0x3e"
    and "hdlc_bit_idx s + 1 \<ge> 8"
  shows "hdlc_currchar s' = 0 \<and> hdlc_bit_idx s' = 0 \<and> demod_bits s' = d
    \<and> (c = HDLC_FLAG \<or> c = HDLC_RESET \<or> c = AX25_ESC \<longrightarrow>
         (\<not> fifo_isfull q \<and> \<not> fifo_isfull (fifo_push q AX25_ESC) \<longrightarrow>
            rx_fifo s' = fifo_push (fifo_push q AX25_ESC) c \<and> hdlc_rxstart s')
       \<and> (\<not> fifo_isfull q \<and> fifo_isfull (fifo_push q AX25_ESC) \<longrightarrow>
            rx_fifo s' = fifo_push q AX25_ESC \<and> \<not> hdlc_rxstart s')
       \<and> (fifo_isfull q \<longrightarrow> rx_fifo s' = q \<and> \<not> hdlc_rxstart s'))
    \<and> (\<not> (c = HDLC_FLAG \<or> c = HDLC_RESET \<or> c = AX25_ESC) \<longrightarrow>
         (\<not> fifo_isfull q \<longrightarrow> rx_fifo s' = fifo_push q c \<and> hdlc_rxstart s')
       \<and> (fifo_isfull q \<longrightarrow> rx_fifo s' = q \<and> \<not> hdlc_rxstart s'))"
proof -
  define t where "t = s\<lparr>demod_bits := d, hdlc_currchar := c, hdlc_bit_idx := hdlc_bit_idx s + 1\<rparr>"
  have p: "s' = hdlc_char_done t"
    unfolding s'_def t_def c_def d_def
    by (rule hdlc_parse_accept [OF assms(5-9) [unfolded d_def]])
  have t: "hdlc_currchar t = c" "rx_fifo t = q" "hdlc_rxstart t" "demod_bits t = d"
    using assms(5) by (simp_all add: t_def q_def)
  have a: "hdlc_currchar s' = 0 \<and> hdlc_bit_idx s' = 0 \<and> demod_bits s' = d"
    by (simp add: p hdlc_char_done_fields t)
  have b: "c = HDLC_FLAG \<or> c = HDLC_RESET \<or> c = AX25_ESC \<longrightarrow>
         (\<not> fifo_isfull q \<and> \<not> fifo_isfull (fifo_push q AX25_ESC) \<longrightarrow>
            rx_fifo s' = fifo_push (fifo_push q AX25_ESC) c \<and> hdlc_rxstart s')
       \<and> (\<not> fifo_isfull q \<and> fifo_isfull (fifo_push q AX25_ESC) \<longrightarrow>
            rx_fifo s' = fifo_push q AX25_ESC \<and> \<not> hdlc_rxstart s')
       \<and> (fifo_isfull q \<longrightarrow> rx_fifo s' = q \<and> \<not> hdlc_rxstart s')"
    using hdlc_char_done_special [of t] t unfolding p by simp
  have c: "\<not> (c = HDLC_FLAG \<or> c = HDLC_RESET \<or> c = AX25_ESC) \<longrightarrow>
         (\<not> fifo_isfull q \<longrightarrow> rx_fifo s' = fifo_push q c \<and> hdlc_rxstart s')
       \<and> (fifo_isfull q \<longrightarrow> rx_fifo s' = q \<and> \<not> hdlc_rxstart s')"
    using hdlc_char_done_plain [of t] t unfolding p by simp
  from a b c show ?thesis by blast
qed


theorem hdlc_parse_eighth_bit_witness:
  "hdlc_rxstart (rx_at_bit7 0x1B 0x6C 31)
   \<and> hdlc_bit_idx (rx_at_bit7 0x1B 0x6C 31) + 1 \<ge> 8
   \<and> push_bit 1 (demod_bits (rx_at_bit7 0x1B 0x6C 31)) OR 0 = 0xD8
   \<and> (0xD8 :: u8) \<noteq> HDLC_FLAG \<and> (0xD8 :: u8) AND HDLC_RESET \<noteq> HDLC_RESET
   \<and> (0xD8 :: u8) AND 0x3f \<noteq> 0x3e
   \<and> items (rx_fifo (hdlc_parse False (rx_at_bit7 0x1B 0x6C 31))) = [AX25_ESC, AX25_ESC]
   \<and> hdlc_rxstart (hdlc_parse False (rx_at_bit7 0x1B 0x6C 31))
   \<and> hdlc_currchar (hdlc_parse False (rx_at_bit7 0x1B 0x6C 31)) = 0
   \<and> hdlc_bit_idx (hdlc_parse False (rx_at_bit7 0x1B 0x6C 31)) = 0
   \<and> items (rx_fifo (hdlc_parse False (rx_at_bit7 0x1B 0x6C 1))) = [AX25_ESC]
   \<and> \<not> hdlc_rxstart (hdlc_parse False (rx_at_bit7 0x1B 0x6C 1))
   \<and> items (rx_fifo (hdlc_parse False (rx_at_bit7 0x1B 0x6C 0))) = []
   \<and> \<not> hdlc_rxstart (hdlc_parse False (rx_at_bit7 0x1B 0x6C 0))
   \<and> items (rx_fifo (hdlc_parse False (rx_at_bit7 0x41 0x41 31))) = [0x41]
   \<and> hdlc_rxstart (hdlc_parse False (rx_at_bit7 0x41 0x41 31))
   \<and> items (rx_fifo (hdlc_parse False (rx_at_bit7 0x41 0x41 0))) = []
   \<and> \<not> hdlc_rxstart (hdlc_parse False (rx_at_bit7 0x41 0x41 0))"
  using hdlc_parse_eighth_bit [of "rx_at_bit7 0x1B 0x6C 31" False]
    hdlc_parse_eighth_bit [of "rx_at_bit7 0x1B 0x6C 1" False]
    hdlc_parse_eighth_bit [of "rx_at_bit7 0x1B 0x6C 0" False]
    hdlc_parse_eighth_bit [of "rx_at_bit7 0x41 0x41 31" False]
    hdlc_parse_eighth_bit [of "rx_at_bit7 0x41 0x41 0" False]
  by (simp add: rx_at_bit7_def init_rx_def fifo_isfull_def fifo_push_def
      HDLC_FLAG_def HDLC_RESET_def AX25_ESC_def)


section \<open>The ADC interrupt\<close>

lemma and_one_neq_zero: "((x :: u8) AND 1 \<noteq> 0) = bit x 0"
  by (simp add: and_one_eq bit_0 mod_2_eq_odd)

lemma EDGE_FOUND_iff: "(EDGE_FOUND x \<noteq> 0) = (bit x 0 \<noteq> bit x 1)"
  unfolding EDGE_FOUND_def BIT_DIFFER_def and_one_neq_zero
  by (simp add: bit_xor_iff bit_drop_bit_eq)

lemma majority_nat:
  "(m mod 8 = 7 \<or> m mod 8 = 6 \<or> m mod 8 = 5 \<or> m mod 8 = 3)
   = ((odd m \<and> odd (m div 2)) \<or> (odd m \<and> odd (m div 4)) \<or> (odd (m div 2) \<and> odd (m div 4)))"
  for m :: nat
  by presburger

lemma low3_unat: "unat ((x :: u8) AND 7) = unat x mod 8"
proof -
  have "x AND 7 = take_bit 3 x"
    by (simp add: take_bit_eq_mask mask_eq_exp_minus_1)
  then show ?thesis by (simp add: take_bit_eq_mod unat_mod)
qed

lemma bit_unat_odd: "bit (x :: u8) n = odd (unat x div 2 ^ n)"
proof -
  have "bit x n = bit (unat x) n" by (simp add: bit_unsigned_iff)
  also have "\<dots> = odd (unat x div 2 ^ n)" by (rule bit_iff_odd)
  finally show ?thesis .
qed

lemma majority_code:
  "((x :: u8) AND 0x07 = 0x07 \<or> x AND 0x07 = 0x06 \<or> x AND 0x07 = 0x05 \<or> x AND 0x07 = 0x03)
   = ((bit x 0 \<and> bit x 1) \<or> (bit x 0 \<and> bit x 2) \<or> (bit x 1 \<and> bit x 2))"
proof -
  have e: "\<And>k. (x AND 7 = of_nat k) = (unat x mod 8 = k mod 256)"
    by (simp add: word_unat_eq_iff low3_unat unat_of_nat)
  have "(x AND 7 = of_nat 7 \<or> x AND 7 = of_nat 6 \<or> x AND 7 = of_nat 5 \<or> x AND 7 = of_nat 3)
     = (unat x mod 8 = 7 \<or> unat x mod 8 = 6 \<or> unat x mod 8 = 5 \<or> unat x mod 8 = 3)"
    unfolding e by simp
  then show ?thesis
    using majority_nat [of "unat x"] bit_unat_odd [of x 0] bit_unat_odd [of x 1]
      bit_unat_odd [of x 2]
    by simp
qed


lemma adc_filter_fields:
  assumes "adc_filter cfg x s = Some s1"
  shows "curr_phase s1 = curr_phase s \<and> found_bits s1 = found_bits s
    \<and> demod_bits s1 = demod_bits s \<and> rx_fifo s1 = rx_fifo s
    \<and> hdlc_rxstart s1 = hdlc_rxstart s \<and> hdlc_currchar s1 = hdlc_currchar s
    \<and> hdlc_bit_idx s1 = hdlc_bit_idx s
    \<and> delay_fifo s1 = fifo_push (snd (fifo_pop (delay_fifo s))) x
    \<and> \<not> fifo_isempty (delay_fifo s) \<and> \<not> fifo_isfull (snd (fifo_pop (delay_fifo s)))"
proof (cases "fifo_isempty (delay_fifo s)")
  case True
  with assms show ?thesis by (simp add: adc_filter_def)
next
  case False
  show ?thesis
  proof (cases "fifo_isfull (snd (fifo_pop (delay_fifo s)))")
    case True
    with False assms show ?thesis
      by (cases "CONFIG_AFSK_FILTER cfg") (simp_all add: adc_filter_def Let_def case_prod_beta)
  next
    case full: False
    with False assms show ?thesis
      by (cases "CONFIG_AFSK_FILTER cfg") (auto simp add: adc_filter_def Let_def case_prod_beta)
  qed
qed

lemma adc_filter_fields_found:
  "adc_filter cfg x s = Some s1 \<Longrightarrow> found_bits s1 = found_bits s"
  by (simp add: adc_filter_fields)

lemma adc_phase_fields:
  "found_bits (adc_phase s) = found_bits s" "sampled_bits (adc_phase s) = sampled_bits s"
  "demod_bits (adc_phase s) = demod_bits s" "rx_fifo (adc_phase s) = rx_fifo s"
  "hdlc_rxstart (adc_phase s) = hdlc_rxstart s" "hdlc_currchar (adc_phase s) = hdlc_currchar s"
  "hdlc_bit_idx (adc_phase s) = hdlc_bit_idx s" "delay_fifo (adc_phase s) = delay_fifo s"
  by (simp_all add: adc_phase_def Let_def)

lemma adc_sample_bit_eq:
  "adc_sample_bit s =
    (s\<lparr>curr_phase := word_of_int (sint (curr_phase s) smod sint PHASE_MAX),
       found_bits := push_bit 1 (found_bits s) OR (if majority3 (sampled_bits s) then 1 else 0)\<rparr>,
     bit (push_bit 1 (found_bits s) OR (if majority3 (sampled_bits s) then 1 else 0)) 0
     = bit (push_bit 1 (found_bits s) OR (if majority3 (sampled_bits s) then 1 else 0)) 1)"
proof (cases "majority3 (sampled_bits s)")
  case True
  then have "sampled_bits s AND 0x07 = 0x07 \<or> sampled_bits s AND 0x07 = 0x06
      \<or> sampled_bits s AND 0x07 = 0x05 \<or> sampled_bits s AND 0x07 = 0x03"
    by (simp only: majority_code majority3_def)
  with True show ?thesis
    by (simp add: adc_sample_bit_def Let_def EDGE_FOUND_iff del: push_bit_eq_mult) 
next
  case False
  then have "\<not> (sampled_bits s AND 0x07 = 0x07 \<or> sampled_bits s AND 0x07 = 0x06
      \<or> sampled_bits s AND 0x07 = 0x05 \<or> sampled_bits s AND 0x07 = 0x03)"
    unfolding majority_code majority3_def by simp
  with False show ?thesis
    by (simp add: adc_sample_bit_def Let_def EDGE_FOUND_iff del: push_bit_eq_mult)
qed

lemma phase_reduce:
  assumes "sint (c :: s8) \<ge> sint PHASE_MAX"
  shows "sint c smod sint PHASE_MAX = sint c mod 64"
    and "0 \<le> sint (word_of_int (sint c mod 64) :: s8)"
    and "sint (word_of_int (sint c mod 64) :: s8) < 64"
proof -
  from assms have p: "0 \<le> sint c" by (simp add: PHASE_MAX_def)
  then show "sint c smod sint PHASE_MAX = sint c mod 64"
    by (simp add: PHASE_MAX_def smod_int_alt_def sgn_if)
  have r: "0 \<le> sint c mod 64" "sint c mod 64 < 64" by simp_all
  then have "signed_take_bit 7 (sint c mod 64) = sint c mod 64"
    by (intro signed_take_bit_int_eq_self) simp_all
  then have "sint (word_of_int (sint c mod 64) :: s8) = sint c mod 64"
    by (simp add: sint_sbintrunc')
  with r show "0 \<le> sint (word_of_int (sint c mod 64) :: s8)"
    and "sint (word_of_int (sint c mod 64) :: s8) < 64"
    by simp_all
qed


lemma adc_isr_deliver:
  assumes "adc_filter cfg x s = Some s1"
    and ge: "sint (curr_phase (adc_phase s1)) \<ge> sint PHASE_MAX"
  shows "adc_isr cfg x s
      = Some (hdlc_parse
          (bit (push_bit 1 (found_bits s) OR (if majority3 (sampled_bits s1) then 1 else 0)) 0
           = bit (push_bit 1 (found_bits s) OR (if majority3 (sampled_bits s1) then 1 else 0)) 1)
          ((adc_phase s1)\<lparr>curr_phase := word_of_int (sint (curr_phase (adc_phase s1)) mod 64),
             found_bits := push_bit 1 (found_bits s)
                OR (if majority3 (sampled_bits s1) then 1 else 0)\<rparr>))"
    and "0 \<le> sint (word_of_int (sint (curr_phase (adc_phase s1)) mod 64) :: s8)"
    and "sint (word_of_int (sint (curr_phase (adc_phase s1)) mod 64) :: s8) < sint PHASE_MAX"
proof -
  let ?f = "push_bit 1 (found_bits s) OR (if majority3 (sampled_bits s1) then 1 else 0)"
  let ?p = "word_of_int (sint (curr_phase (adc_phase s1)) mod 64) :: s8"
  have sb: "adc_sample_bit (adc_phase s1)
      = ((adc_phase s1)\<lparr>curr_phase := ?p, found_bits := ?f\<rparr>, bit ?f 0 = bit ?f 1)"
    unfolding adc_sample_bit_eq phase_reduce(1) [OF ge] adc_phase_fields
      adc_filter_fields_found [OF assms(1)]
    by (rule refl)
  show "adc_isr cfg x s
      = Some (hdlc_parse (bit ?f 0 = bit ?f 1) ((adc_phase s1)\<lparr>curr_phase := ?p, found_bits := ?f\<rparr>))"
    using ge by (simp add: adc_isr_def assms(1) Let_def sb del: push_bit_eq_mult)
  show "0 \<le> sint ?p" "sint ?p < sint PHASE_MAX"
    using phase_reduce(2,3) [OF ge] by (simp_all add: PHASE_MAX_def)
qed

lemma adc_isr_hold:
  assumes "adc_filter cfg x s = Some s1"
    and "sint (curr_phase (adc_phase s1)) < sint PHASE_MAX"
  shows "adc_isr cfg x s = Some (adc_phase s1)"
  using assms by (simp add: adc_isr_def Let_def)

text \<open>
  Claim C6. On an ADC tick (\<open>s1\<close> is the state after the filter, \<open>adc_phase s1\<close> the
  state after the phase update) in which \<^verbatim>\<open>curr_phase\<close> reaches or exceeds \<^verbatim>\<open>PHASE_MAX\<close>
  (64): \<^verbatim>\<open>curr_phase\<close> is reduced modulo 64, one bit is decided as the majority of the
  three least-significant entries of \<^verbatim>\<open>sampled_bits\<close> (the patterns 011, 101, 110 and 111
  give one, the others zero) and shifted into \<^verbatim>\<open>found_bits\<close>, and \<^verbatim>\<open>hdlc_parse\<close> is called
  once, with a bit that is one iff the two most recent entries of \<^verbatim>\<open>found_bits\<close> are
  equal. On a tick in which \<^verbatim>\<open>curr_phase\<close> stays below \<^verbatim>\<open>PHASE_MAX\<close>, \<^verbatim>\<open>hdlc_parse\<close> is
  not called: the tick ends in the state after the phase update, in which
  \<^verbatim>\<open>found_bits\<close> and the state of the deframer are those before the tick.
\<close>

theorem adc_isr_sample_bit:
  assumes "adc_filter cfg x s = Some s1"
  shows "(sint (curr_phase (adc_phase s1)) \<ge> sint PHASE_MAX \<longrightarrow>
           (let f = push_bit 1 (found_bits s) OR (if majority3 (sampled_bits s1) then 1 else 0);
                p = word_of_int (sint (curr_phase (adc_phase s1)) mod 64)
            in adc_isr cfg x s
                 = Some (hdlc_parse (bit f 0 = bit f 1)
                          ((adc_phase s1)\<lparr>curr_phase := p, found_bits := f\<rparr>))
               \<and> 0 \<le> sint p \<and> sint p < sint PHASE_MAX))
       \<and> (sint (curr_phase (adc_phase s1)) < sint PHASE_MAX \<longrightarrow>
            adc_isr cfg x s = Some (adc_phase s1)
          \<and> found_bits (adc_phase s1) = found_bits s
          \<and> demod_bits (adc_phase s1) = demod_bits s
          \<and> rx_fifo (adc_phase s1) = rx_fifo s
          \<and> hdlc_rxstart (adc_phase s1) = hdlc_rxstart s
          \<and> hdlc_currchar (adc_phase s1) = hdlc_currchar s
          \<and> hdlc_bit_idx (adc_phase s1) = hdlc_bit_idx s)
       \<and> (majority3 (sampled_bits s1) = (sampled_bits s1 AND 0x07 \<in> {0x03, 0x05, 0x06, 0x07}))"
proof (intro conjI impI)
  assume ge: "sint (curr_phase (adc_phase s1)) \<ge> sint PHASE_MAX"
  show "let f = push_bit 1 (found_bits s) OR (if majority3 (sampled_bits s1) then 1 else 0);
            p = word_of_int (sint (curr_phase (adc_phase s1)) mod 64)
    in adc_isr cfg x s
         = Some (hdlc_parse (bit f 0 = bit f 1) ((adc_phase s1)\<lparr>curr_phase := p, found_bits := f\<rparr>))
       \<and> 0 \<le> sint p \<and> sint p < sint PHASE_MAX"
    unfolding Let_def using adc_isr_deliver [OF assms ge] by blast
next
  assume lt: "sint (curr_phase (adc_phase s1)) < sint PHASE_MAX"
  show "adc_isr cfg x s = Some (adc_phase s1)"
    by (rule adc_isr_hold [OF assms lt])
  show "found_bits (adc_phase s1) = found_bits s" "demod_bits (adc_phase s1) = demod_bits s"
    "rx_fifo (adc_phase s1) = rx_fifo s" "hdlc_rxstart (adc_phase s1) = hdlc_rxstart s"
    "hdlc_currchar (adc_phase s1) = hdlc_currchar s" "hdlc_bit_idx (adc_phase s1) = hdlc_bit_idx s"
    using adc_filter_fields [OF assms] by (simp_all add: adc_phase_fields)
next
  show "majority3 (sampled_bits s1) = (sampled_bits s1 AND 0x07 \<in> {0x03, 0x05, 0x06, 0x07})"
    using majority_code [of "sampled_bits s1"] by (auto simp add: majority3_def)
qed

lemma delay_line_zero: "replicate 3 (0 :: s8) @ [0] = replicate 4 0"
  by (simp add: eval_nat_numeral)

lemma adc_filter_silence:
  "adc_filter cfg_example 0 (rx_at_phase p sb) = Some (rx_at_phase p (push_bit 1 sb))"
  by (simp add: adc_filter_def rx_at_phase_def init_rx_def cfg_example_def Let_def fifo_init_def
      fifo_isempty_def fifo_isfull_def fifo_pop_def fifo_push_def SAMPLEPERBIT_def
      SAMPLERATE_def BITRATE_def delay_line_zero del: push_bit_eq_mult)

lemma rx_at_phase_fields:
  "found_bits (rx_at_phase p sb) = 0" "sampled_bits (rx_at_phase p sb) = sb"
  "curr_phase (rx_at_phase p sb) = p" "demod_bits (rx_at_phase p sb) = 0"
  "hdlc_rxstart (rx_at_phase p sb) = False"
  by (simp_all add: rx_at_phase_def init_rx_def)

theorem adc_isr_sample_bit_witness:
  "adc_filter cfg_example 0 (rx_at_phase 57 0x03) = Some (rx_at_phase 57 0x06)
   \<and> sint (curr_phase (adc_phase (rx_at_phase 57 0x06))) \<ge> sint PHASE_MAX
   \<and> adc_isr cfg_example 0 (rx_at_phase 57 0x03)
       = Some (hdlc_parse False ((adc_phase (rx_at_phase 57 0x06))\<lparr>curr_phase := 0, found_bits := 1\<rparr>))
   \<and> adc_filter cfg_example 0 (rx_at_phase 0 0) = Some (rx_at_phase 0 0)
   \<and> sint (curr_phase (adc_phase (rx_at_phase 0 0))) < sint PHASE_MAX
   \<and> adc_isr cfg_example 0 (rx_at_phase 0 0) = Some (adc_phase (rx_at_phase 0 0))
   \<and> curr_phase (adc_phase (rx_at_phase 0 0)) = 8"
proof -
  have a: "adc_filter cfg_example 0 (rx_at_phase 57 0x03) = Some (rx_at_phase 57 0x06)"
    using adc_filter_silence [of 57 3] by simp
  have b: "adc_filter cfg_example 0 (rx_at_phase 0 0) = Some (rx_at_phase 0 0)"
    using adc_filter_silence [of 0 0] by simp
  have pa: "curr_phase (adc_phase (rx_at_phase 57 0x06)) = 64"
    by (simp add: adc_phase_def rx_at_phase_fields EDGE_FOUND_def BIT_DIFFER_def Let_def
        PHASE_THRES_def PHASE_INC_def PHASE_BIT_def)
  have pb: "curr_phase (adc_phase (rx_at_phase 0 0)) = 8"
    by (simp add: adc_phase_def rx_at_phase_fields EDGE_FOUND_def BIT_DIFFER_def Let_def
        PHASE_THRES_def PHASE_INC_def PHASE_BIT_def)
  have m: "majority3 0x06" by (simp add: majority3_def)
  show ?thesis
    using adc_isr_sample_bit [OF a] adc_isr_sample_bit [OF b] a b
    by (simp add: pa pb m PHASE_MAX_def rx_at_phase_fields Let_def)
qed


section \<open>Invariants of the interleaved modem\<close>

lemma sint_add_s8:
  assumes "- 128 \<le> sint a + sint b" and "sint a + sint b < 128"
  shows "sint (a + b :: s8) = sint a + sint b"
proof -
  have "signed_take_bit 7 (sint a + sint b) = sint a + sint b"
    using assms by (intro signed_take_bit_int_eq_self) simp_all
  then show ?thesis by (simp add: sint_word_add)
qed

lemma sint_diff_s8:
  assumes "- 128 \<le> sint a - sint b" and "sint a - sint b < 128"
  shows "sint (a - b :: s8) = sint a - sint b"
proof -
  have "signed_take_bit 7 (sint a - sint b) = sint a - sint b"
    using assms by (intro signed_take_bit_int_eq_self) simp_all
  then show ?thesis by (simp add: sint_word_diff)
qed

lemma adc_phase_range:
  assumes "0 \<le> sint (curr_phase s)" and "sint (curr_phase s) < 64"
  shows "0 \<le> sint (curr_phase (adc_phase s))" and "sint (curr_phase (adc_phase s)) < 72"
proof -
  let ?c = "curr_phase s"
  have k: "sint PHASE_INC = 1" "sint PHASE_BIT = 8" "sint PHASE_THRES = 32"
    by (simp_all add: PHASE_INC_def PHASE_BIT_def PHASE_THRES_def)
  have up: "sint (?c + PHASE_INC) = sint ?c + 1"
    using assms by (simp add: sint_add_s8 k)
  have dn: "sint (?c - PHASE_INC) = sint ?c - 1"
    using assms by (simp add: sint_diff_s8 k)
  have up8: "sint (?c + PHASE_INC + PHASE_BIT) = sint ?c + 9"
    using assms up by (simp add: sint_add_s8 k)
  have dn8: "sint (?c - PHASE_INC + PHASE_BIT) = sint ?c + 7"
    using assms dn by (simp add: sint_add_s8 k)
  have st8: "sint (?c + PHASE_BIT) = sint ?c + 8"
    using assms by (simp add: sint_add_s8 k)
  show "0 \<le> sint (curr_phase (adc_phase s))" and "sint (curr_phase (adc_phase s)) < 72"
    using assms by (simp_all add: adc_phase_def Let_def up8 dn8 st8 k)
qed

lemma hdlc_parse_fields:
  "curr_phase (hdlc_parse b s) = curr_phase s"
  "delay_fifo (hdlc_parse b s) = delay_fifo s"
  by (simp_all add: hdlc_parse_def Let_def hdlc_char_done_fields)

lemma adc_isr_Some:
  assumes "delay_line_ok r" and "0 \<le> sint (curr_phase r)" and "sint (curr_phase r) < sint PHASE_MAX"
  shows "\<exists>r1. adc_isr cfg x r = Some r1 \<and> delay_line_ok r1
           \<and> 0 \<le> sint (curr_phase r1) \<and> sint (curr_phase r1) < sint PHASE_MAX"
proof -
  have four: "SAMPLEPERBIT div 2 = 4"
    by (simp add: SAMPLEPERBIT_def SAMPLERATE_def BITRATE_def)
  from assms(1) obtain d ds where it: "items (delay_fifo r) = d # ds" and len: "length ds = 3"
    and cap: "capacity (delay_fifo r) = 4"
    by (cases "items (delay_fifo r)") (simp_all add: delay_line_ok_def four)
  have ne: "\<not> fifo_isempty (delay_fifo r)" by (simp add: fifo_isempty_def it)
  have nf: "\<not> fifo_isfull (snd (fifo_pop (delay_fifo r)))"
    by (simp add: fifo_isfull_def fifo_pop_def it len cap)
  from ne nf obtain s1 where f: "adc_filter cfg x r = Some s1"
    by (cases "CONFIG_AFSK_FILTER cfg") (simp_all add: adc_filter_def Let_def case_prod_beta)
  note ff = adc_filter_fields [OF f]
  have d1: "delay_line_ok s1"
    using ff by (simp add: delay_line_ok_def four fifo_push_def fifo_pop_def it len cap)
  have d2: "delay_line_ok (adc_phase s1)"
    using d1 by (simp add: delay_line_ok_def adc_phase_fields)
  have c1: "0 \<le> sint (curr_phase s1)" "sint (curr_phase s1) < 64"
    using assms(2,3) ff by (simp_all add: PHASE_MAX_def)
  note rg = adc_phase_range [OF c1]
  show ?thesis
  proof (cases "sint (curr_phase (adc_phase s1)) \<ge> sint PHASE_MAX")
    case True
    let ?f = "push_bit 1 (found_bits r) OR (if majority3 (sampled_bits s1) then 1 else 0)"
    let ?p = "word_of_int (sint (curr_phase (adc_phase s1)) mod 64) :: s8"
    let ?s3 = "(adc_phase s1)\<lparr>curr_phase := ?p, found_bits := ?f\<rparr>"
    from adc_isr_deliver [OF f True]
    have r: "adc_isr cfg x r = Some (hdlc_parse (bit ?f 0 = bit ?f 1) ?s3)"
      and p: "0 \<le> sint ?p" "sint ?p < sint PHASE_MAX"
      by blast+
    have "delay_line_ok (hdlc_parse (bit ?f 0 = bit ?f 1) ?s3)"
      using d2 by (simp add: delay_line_ok_def hdlc_parse_fields)
    with r p show ?thesis by (simp add: hdlc_parse_fields)
  next
    case False
    then have "adc_isr cfg x r = Some (adc_phase s1)"
      by (intro adc_isr_hold [OF f]) simp
    with False d2 rg show ?thesis by simp
  qed
qed


lemma tx_next_char_fields:
  "sending (tx_next_char s) = sending s" "dac_irq (tx_next_char s) = dac_irq s"
  "tx_bit (tx_next_char s) = tx_bit s" "sample_count (tx_next_char s) = sample_count s"
  "phase_acc (tx_next_char s) = phase_acc s" "phase_inc (tx_next_char s) = phase_inc s"
  by (simp_all add: tx_next_char_def Let_def)

lemma tx_get_char_RETURN:
  assumes "tx_get_char s = TX_RETURN s1"
  shows "\<not> sending s1" "\<not> dac_irq s1" "tx_bit s1 = tx_bit s"
    "sample_count s1 = sample_count s" "phase_acc s1 = phase_acc s"
  using assms
  by (auto simp add: tx_get_char_def Let_def dac_stop_def tx_next_char_fields split: if_splits)

lemma tx_get_char_GO:
  assumes "tx_get_char s = TX_GO s1"
  shows "sending s1 = sending s" "dac_irq s1 = dac_irq s" "phase_acc s1 = phase_acc s"
    "sample_count s1 = sample_count s"
  using assms
  by (auto simp add: tx_get_char_def Let_def tx_next_char_fields split: if_splits)

lemma dac_put_sample_phase: "phase_acc (fst (dac_put_sample s)) < SIN_LEN"
  by (simp add: dac_put_sample_def Let_def phase_mod_bound)

lemma dac_isr_phase_acc:
  assumes "phase_acc t < SIN_LEN"
  shows "phase_acc (fst (dac_isr cfg t)) < SIN_LEN"
proof (cases "sample_count t = 0")
  case False
  then show ?thesis
    by (simp add: dac_isr_no_boundary dac_put_sample_phase)
next
  case True
  show ?thesis
  proof (cases "if tx_bit t = 0 then tx_get_char t else TX_GO t")
    case (TX_RETURN s1)
    then have "phase_acc s1 = phase_acc t"
      by (auto dest: tx_get_char_RETURN(5) split: if_splits)
    with assms show ?thesis by (simp add: dac_isr_return [OF True TX_RETURN])
  next
    case (TX_GO s1)
    show ?thesis
      unfolding dac_isr_go [OF True TX_GO] by (rule dac_put_sample_phase)
  qed
qed

lemma dac_isr_idle:
  assumes "tx_idle_ok t" and "dac_irq t"
  shows "tx_idle_ok (fst (dac_isr cfg t))"
proof -
  from assms have snd: "sending t" by (simp add: tx_idle_ok_def)
  show ?thesis
  proof (cases "sample_count t = 0")
    case False
    then show ?thesis
      using assms snd by (simp add: dac_isr_no_boundary tx_idle_ok_def dac_put_sample_fields)
  next
    case True
    show ?thesis
    proof (cases "if tx_bit t = 0 then tx_get_char t else TX_GO t")
      case (TX_RETURN s1)
      then have g: "tx_get_char t = TX_RETURN s1" and b: "tx_bit t = 0"
        by (auto split: if_splits)
      from tx_get_char_RETURN [OF g] b True show ?thesis
        by (simp add: dac_isr_return [OF True TX_RETURN] tx_idle_ok_def)
    next
      case (TX_GO s1)
      then have "sending s1 = sending t \<and> dac_irq s1 = dac_irq t"
        by (auto dest: tx_get_char_GO split: if_splits)
      with assms snd show ?thesis
        by (simp add: dac_isr_go [OF True TX_GO] tx_idle_ok_def dac_put_sample_fields
            tx_send_bit_fields)
    qed
  qed
qed


lemma init_ok:
  "phase_ok (afsk_init cfg)" "delay_line_ok (init_rx cfg)" "tx_idle_ok (init_tx cfg)"
  by (simp_all add: phase_ok_def delay_line_ok_def tx_idle_ok_def afsk_init_def init_tx_def
      init_rx_def fifo_init_def SIN_LEN_def PHASE_MAX_def)

lemma step_phase:
  assumes "phase_ok m" and "delay_line_ok (snd m)"
  shows "\<exists>m1. step cfg e m = Some m1 \<and> phase_ok m1 \<and> delay_line_ok (snd m1)"
proof -
  obtain t r where m: "m = (t, r)" by (cases m)
  from assms have pt: "phase_acc t < SIN_LEN" and dl: "delay_line_ok r"
    and pr: "0 \<le> sint (curr_phase r)" "sint (curr_phase r) < sint PHASE_MAX"
    by (simp_all add: m phase_ok_def)
  show ?thesis
  proof (cases e)
    case (ADC_IRQ x)
    from adc_isr_Some [OF dl pr, of cfg x] obtain r1 where
      "adc_isr cfg x r = Some r1" "delay_line_ok r1"
      "0 \<le> sint (curr_phase r1)" "sint (curr_phase r1) < sint PHASE_MAX"
      by blast
    with pt show ?thesis by (simp add: m ADC_IRQ phase_ok_def)
  next
    case DAC_IRQ
    with pt pr dl dac_isr_phase_acc [OF pt, of cfg] show ?thesis
      by (simp add: m phase_ok_def)
  next
    case (WRITE_PUSH c)
    with pt pr dl show ?thesis by (simp add: m phase_ok_def)
  next
    case WRITE_START_IF
    with pt pr dl show ?thesis by (simp add: m phase_ok_def tx_start_if_def SIN_LEN_def)
  next
    case WRITE_START_TRAILER
    with pt pr dl show ?thesis by (simp add: m phase_ok_def tx_set_trailer_def)
  next
    case READ_POP
    with pt pr dl show ?thesis by (simp add: m phase_ok_def delay_line_ok_def)
  qed
qed

lemma run_phase:
  assumes "phase_ok m" and "delay_line_ok (snd m)"
  shows "\<exists>m1. run cfg evs m = Some m1 \<and> phase_ok m1 \<and> delay_line_ok (snd m1)"
  using assms
proof (induction evs arbitrary: m)
  case Nil
  then show ?case by simp
next
  case (Cons e evs)
  from step_phase [OF Cons.prems, of cfg e] obtain m1 where
    s: "step cfg e m = Some m1" and ok: "phase_ok m1" "delay_line_ok (snd m1)"
    by blast
  from Cons.IH [OF ok] s show ?case by simp
qed

text \<open>
  Claim C8. For every sequence of steps of the modem from the initial state (ADC and
  DAC interrupts and the steps of the main context, in any order), the run is defined
  and ends in a state with \<^verbatim>\<open>phase_acc < SIN_LEN\<close> (512) and
  \<^verbatim>\<open>0 <= curr_phase < PHASE_MAX\<close> (64). Every prefix of a sequence being a sequence, the
  bounds hold after every tick.
\<close>

theorem phase_invariants:
  "\<exists>t r. run cfg evs (afsk_init cfg) = Some (t, r)
     \<and> phase_acc t < SIN_LEN
     \<and> 0 \<le> sint (curr_phase r) \<and> sint (curr_phase r) < sint PHASE_MAX"
proof -
  have "delay_line_ok (snd (afsk_init cfg))"
    by (simp add: afsk_init_def init_ok)
  from run_phase [OF init_ok(1) this, of cfg evs]
  obtain m1 where "run cfg evs (afsk_init cfg) = Some m1" and "phase_ok m1"
    by blast
  then show ?thesis by (cases m1) (simp add: phase_ok_def)
qed

lemma step_idle:
  assumes "tx_idle_ok (fst m)" and "step cfg e m = Some m1"
  shows "tx_idle_ok (fst m1)"
proof -
  obtain t r where m: "m = (t, r)" by (cases m)
  from assms(1) have ok: "tx_idle_ok t" by (simp add: m)
  show ?thesis
  proof (cases e)
    case (ADC_IRQ x)
    with assms(2) ok show ?thesis by (auto simp add: m split: option.splits)
  next
    case DAC_IRQ
    with assms(2) ok dac_isr_idle [OF ok, of cfg] show ?thesis
      by (auto simp add: m split: if_splits)
  next
    case (WRITE_PUSH c)
    with assms(2) ok show ?thesis by (auto simp add: m tx_idle_ok_def split: if_splits)
  next
    case WRITE_START_IF
    with assms(2) ok show ?thesis by (auto simp add: m tx_idle_ok_def tx_start_if_def)
  next
    case WRITE_START_TRAILER
    with assms(2) ok show ?thesis by (auto simp add: m tx_idle_ok_def tx_set_trailer_def)
  next
    case READ_POP
    with assms(2) ok show ?thesis by (auto simp add: m split: if_splits)
  qed
qed

lemma run_idle:
  assumes "tx_idle_ok (fst m)" and "run cfg evs m = Some m1"
  shows "tx_idle_ok (fst m1)"
  using assms
proof (induction evs arbitrary: m)
  case Nil
  then show ?case by simp
next
  case (Cons e evs)
  from Cons.prems(2) obtain m2 where s: "step cfg e m = Some m2" and r: "run cfg evs m2 = Some m1"
    by (auto split: option.splits)
  from Cons.IH [OF step_idle [OF Cons.prems(1) s] r] show ?case .
qed

text \<open>
  Claim C9. In every state the modem reaches from the initial state in which
  \<^verbatim>\<open>sending\<close> is false, \<^verbatim>\<open>tx_bit == 0\<close> and \<^verbatim>\<open>sample_count == 0\<close> hold (and the DAC
  interrupt is disabled); hence after \<^verbatim>\<open>afsk_txStart\<close> the transmitter is at a character
  boundary, and the first DAC interrupt of the transmission starts by getting a new
  character.
\<close>

theorem idle_at_char_boundary:
  assumes "run cfg evs (afsk_init cfg) = Some (t, r)" and "\<not> sending t"
  shows "tx_bit t = 0 \<and> sample_count t = 0 \<and> \<not> dac_irq t
       \<and> sending (afsk_txStart cfg t)
       \<and> tx_bit (afsk_txStart cfg t) = 0 \<and> sample_count (afsk_txStart cfg t) = 0
       \<and> dac_isr cfg (afsk_txStart cfg t)
           = (case tx_get_char (afsk_txStart cfg t) of
                TX_RETURN s1 \<Rightarrow> (s1, None)
              | TX_GO s1 \<Rightarrow>
                  dac_put_sample
                    ((tx_send_bit cfg s1)\<lparr>sample_count := of_nat (DAC_SAMPLEPERBIT cfg)\<rparr>))"
proof -
  have "tx_idle_ok (fst (afsk_init cfg))" by (simp add: afsk_init_def init_ok)
  from run_idle [OF this assms(1)] have "tx_idle_ok t" by simp
  with assms(2) have i: "tx_bit t = 0" "sample_count t = 0" "\<not> dac_irq t"
    by (simp_all add: tx_idle_ok_def)
  from i assms(2) have s: "sending (afsk_txStart cfg t)" "tx_bit (afsk_txStart cfg t) = 0"
    "sample_count (afsk_txStart cfg t) = 0"
    by (simp_all add: afsk_txStart_def tx_start_if_def tx_set_trailer_def)
  from s have "dac_isr cfg (afsk_txStart cfg t)
           = (case tx_get_char (afsk_txStart cfg t) of
                TX_RETURN s1 \<Rightarrow> (s1, None)
              | TX_GO s1 \<Rightarrow>
                  dac_put_sample
                    ((tx_send_bit cfg s1)\<lparr>sample_count := of_nat (DAC_SAMPLEPERBIT cfg)\<rparr>))"
    by (simp add: dac_isr_def)
  with i s show ?thesis by simp
qed


lemma run_escape_abort:
  "run cfg_no_flags [WRITE_PUSH AX25_ESC, WRITE_START_IF, WRITE_START_TRAILER, DAC_IRQ]
     (afsk_init cfg_no_flags)
   = Some ((init_tx cfg_no_flags)\<lparr>curr_out := AX25_ESC, bit_stuff := True\<rparr>,
           init_rx cfg_no_flags)"
proof -
  let ?t1 = "(init_tx cfg_no_flags)\<lparr>tx_fifo := \<lparr>items = [AX25_ESC], capacity = 31\<rparr>,
      sending := True, dac_irq := True\<rparr>"
  have e1: "step cfg_no_flags (WRITE_PUSH AX25_ESC) (afsk_init cfg_no_flags)
      = Some ((init_tx cfg_no_flags)\<lparr>tx_fifo := \<lparr>items = [AX25_ESC], capacity = 31\<rparr>\<rparr>,
              init_rx cfg_no_flags)"
    by (simp add: afsk_init_def init_tx_def cfg_no_flags_def cfg_example_def fifo_init_def
        fifo_isfull_def fifo_push_def)
  have e2: "tx_set_trailer cfg_no_flags (tx_start_if cfg_no_flags
      ((init_tx cfg_no_flags)\<lparr>tx_fifo := \<lparr>items = [AX25_ESC], capacity = 31\<rparr>\<rparr>)) = ?t1"
    by (simp add: tx_start_if_def tx_set_trailer_def init_tx_def cfg_no_flags_def
        cfg_example_def DIV_ROUND_def)
  have n: "tx_next_char ?t1 = (init_tx cfg_no_flags)\<lparr>tx_fifo := \<lparr>items = [], capacity = 31\<rparr>,
      sending := True, dac_irq := True, curr_out := AX25_ESC, bit_stuff := True\<rparr>"
    by (simp add: tx_next_char_def init_tx_def Let_def fifo_isempty_def fifo_pop_def)
  have g: "tx_get_char ?t1
      = TX_RETURN ((init_tx cfg_no_flags)\<lparr>curr_out := AX25_ESC, bit_stuff := True\<rparr>)"
    unfolding tx_get_char_def n Let_def
    by (simp add: init_tx_def fifo_isempty_def dac_stop_def cfg_no_flags_def cfg_example_def
        fifo_init_def)
  have e3: "dac_isr cfg_no_flags ?t1
      = ((init_tx cfg_no_flags)\<lparr>curr_out := AX25_ESC, bit_stuff := True\<rparr>, None)"
    by (rule dac_isr_return) (simp_all add: g, simp_all add: init_tx_def)
  show ?thesis
    by (simp add: e1 e2 e3)
qed

theorem idle_at_char_boundary_witness:
  "run cfg_no_flags [WRITE_PUSH AX25_ESC, WRITE_START_IF, WRITE_START_TRAILER, DAC_IRQ]
     (afsk_init cfg_no_flags)
   = Some ((init_tx cfg_no_flags)\<lparr>curr_out := AX25_ESC, bit_stuff := True\<rparr>,
           init_rx cfg_no_flags)
   \<and> \<not> sending ((init_tx cfg_no_flags)\<lparr>curr_out := AX25_ESC, bit_stuff := True\<rparr>)
   \<and> tx_bit ((init_tx cfg_no_flags)\<lparr>curr_out := AX25_ESC, bit_stuff := True\<rparr>) = 0
   \<and> sample_count ((init_tx cfg_no_flags)\<lparr>curr_out := AX25_ESC, bit_stuff := True\<rparr>) = 0
   \<and> sending (afsk_txStart cfg_no_flags
         ((init_tx cfg_no_flags)\<lparr>curr_out := AX25_ESC, bit_stuff := True\<rparr>))"
proof -
  have s: "\<not> sending ((init_tx cfg_no_flags)\<lparr>curr_out := AX25_ESC, bit_stuff := True\<rparr>)"
    by (simp add: init_tx_def)
  show ?thesis
    using idle_at_char_boundary [OF run_escape_abort s] run_escape_abort s by simp
qed


subsection \<open>The two tones\<close>

text \<open>
  In every reachable state \<^verbatim>\<open>phase_inc\<close> is \<^verbatim>\<open>MARK_INC\<close> or \<^verbatim>\<open>SPACE_INC\<close>, so that
  \<^verbatim>\<open>SWITCH_TONE\<close> always goes from one tone to the other.
\<close>

lemma tx_get_char_phase_inc:
  "tx_get_char s = TX_RETURN s1 \<Longrightarrow> phase_inc s1 = phase_inc s"
  "tx_get_char s = TX_GO s1 \<Longrightarrow> phase_inc s1 = phase_inc s"
  by (auto simp add: tx_get_char_def Let_def dac_stop_def tx_next_char_fields split: if_splits)

lemma tx_send_bit_tone: "tone_ok cfg s \<Longrightarrow> tone_ok cfg (tx_send_bit cfg s)"
  by (auto simp add: tone_ok_def tx_send_bit_def SWITCH_TONE_def)

lemma dac_isr_tone:
  assumes "tone_ok cfg t"
  shows "tone_ok cfg (fst (dac_isr cfg t))"
proof (cases "sample_count t = 0")
  case False
  with assms show ?thesis
    by (simp add: dac_isr_no_boundary tone_ok_def dac_put_sample_fields)
next
  case True
  show ?thesis
  proof (cases "if tx_bit t = 0 then tx_get_char t else TX_GO t")
    case (TX_RETURN s1)
    then have "phase_inc s1 = phase_inc t"
      by (auto dest: tx_get_char_phase_inc(1) split: if_splits)
    with assms show ?thesis
      by (simp add: dac_isr_return [OF True TX_RETURN] tone_ok_def)
  next
    case (TX_GO s1)
    then have "phase_inc s1 = phase_inc t"
      by (auto dest: tx_get_char_phase_inc(2) split: if_splits)
    with assms have "tone_ok cfg s1" by (simp add: tone_ok_def)
    from tx_send_bit_tone [OF this] show ?thesis
      by (simp add: dac_isr_go [OF True TX_GO] tone_ok_def dac_put_sample_fields)
  qed
qed

lemma step_tone:
  assumes "tone_ok cfg (fst m)" and "step cfg e m = Some m1"
  shows "tone_ok cfg (fst m1)"
proof -
  obtain t r where m: "m = (t, r)" by (cases m)
  from assms(1) have ok: "tone_ok cfg t" by (simp add: m)
  show ?thesis
  proof (cases e)
    case (ADC_IRQ x)
    with assms(2) ok show ?thesis by (auto simp add: m split: option.splits)
  next
    case DAC_IRQ
    with assms(2) ok dac_isr_tone [OF ok] show ?thesis
      by (auto simp add: m split: if_splits)
  next
    case (WRITE_PUSH c)
    with assms(2) ok show ?thesis by (auto simp add: m tone_ok_def split: if_splits)
  next
    case WRITE_START_IF
    with assms(2) ok show ?thesis by (auto simp add: m tone_ok_def tx_start_if_def)
  next
    case WRITE_START_TRAILER
    with assms(2) ok show ?thesis by (auto simp add: m tone_ok_def tx_set_trailer_def)
  next
    case READ_POP
    with assms(2) ok show ?thesis by (auto simp add: m split: if_splits)
  qed
qed

lemma run_tone:
  assumes "run cfg evs (afsk_init cfg) = Some (t, r)"
  shows "phase_inc t = MARK_INC cfg \<or> phase_inc t = SPACE_INC cfg"
proof -
  have g: "\<And>m m1. tone_ok cfg (fst m) \<Longrightarrow> run cfg evs m = Some m1 \<Longrightarrow> tone_ok cfg (fst m1)"
  proof (induction evs)
    case Nil
    then show ?case by simp
  next
    case (Cons e evs)
    from Cons.prems(2) obtain m2 where s: "step cfg e m = Some m2"
      and r: "run cfg evs m2 = Some m1"
      by (auto split: option.splits)
    from Cons.IH [OF step_tone [OF Cons.prems(1) s] r] show ?case .
  qed
  have "tone_ok cfg (fst (afsk_init cfg))"
    by (simp add: afsk_init_def init_tx_def tone_ok_def)
  from g [OF this assms] show ?thesis by (simp add: tone_ok_def)
qed

section \<open>The preamble\<close>






lemma flags_step:
  assumes "dac_irq s" and "\<not> payload_fetched cfg s"
    and "preamble_flags cfg n (fst (dac_isr cfg s)) = Some k"
  shows "preamble_flags cfg (Suc n) s = Some (if flag_emitted cfg s then Suc k else k)"
  using assms by simp


















subsection \<open>A silent line delivers nothing\<close>

lemma hdlc_parse_one_idle:
  assumes "\<not> hdlc_rxstart r"
  shows "rx_fifo (hdlc_parse True r) = rx_fifo r" and "\<not> hdlc_rxstart (hdlc_parse True r)"
    and "sampled_bits (hdlc_parse True r) = sampled_bits r"
    and "found_bits (hdlc_parse True r) = found_bits r"
    and "iir_x0 (hdlc_parse True r) = iir_x0 r" and "iir_x1 (hdlc_parse True r) = iir_x1 r"
    and "iir_y0 (hdlc_parse True r) = iir_y0 r" and "iir_y1 (hdlc_parse True r) = iir_y1 r"
proof -
  let ?d = "push_bit 1 (demod_bits r) OR 1"
  have "odd ?d" by (simp add: even_or_iff)
  moreover have "even HDLC_FLAG" by (simp add: HDLC_FLAG_def)
  ultimately have ne: "?d \<noteq> HDLC_FLAG" by metis
  have "hdlc_parse True r
      = (if ?d AND HDLC_RESET = HDLC_RESET then r\<lparr>demod_bits := ?d, hdlc_rxstart := False\<rparr>
         else r\<lparr>demod_bits := ?d\<rparr>)"
    using ne assms by (simp add: hdlc_parse_def Let_def del: push_bit_eq_mult)
  with assms show "rx_fifo (hdlc_parse True r) = rx_fifo r"
    and "\<not> hdlc_rxstart (hdlc_parse True r)"
    and "sampled_bits (hdlc_parse True r) = sampled_bits r"
    and "found_bits (hdlc_parse True r) = found_bits r"
    and "iir_x0 (hdlc_parse True r) = iir_x0 r" and "iir_x1 (hdlc_parse True r) = iir_x1 r"
    and "iir_y0 (hdlc_parse True r) = iir_y0 r" and "iir_y1 (hdlc_parse True r) = iir_y1 r"
    by simp_all
qed

lemma adc_isr_silent:
  assumes "rx_silent r"
  shows "\<exists>r1. adc_isr cfg 0 r = Some r1 \<and> rx_silent r1"
proof -
  have four: "SAMPLEPERBIT div 2 = 4"
    by (simp add: SAMPLEPERBIT_def SAMPLERATE_def BITRATE_def)
  from assms have dl: "delay_line_ok r" and z: "set (items (delay_fifo r)) \<subseteq> {0}"
    and ph: "0 \<le> sint (curr_phase r)" "sint (curr_phase r) < sint PHASE_MAX"
    by (simp_all add: rx_silent_def)
  from dl obtain d ds where it: "items (delay_fifo r) = d # ds" and len: "length ds = 3"
    and cap: "capacity (delay_fifo r) = 4"
    by (cases "items (delay_fifo r)") (simp_all add: delay_line_ok_def four)
  from z it have d0: "d = 0" and ds0: "set ds \<subseteq> {0}" by simp_all
  have ne: "\<not> fifo_isempty (delay_fifo r)" by (simp add: fifo_isempty_def it)
  have nf: "\<not> fifo_isfull (snd (fifo_pop (delay_fifo r)))"
    by (simp add: fifo_isfull_def fifo_pop_def it len cap)
  let ?s1 = "r\<lparr>delay_fifo := fifo_push (snd (fifo_pop (delay_fifo r))) 0\<rparr>"
  have f: "adc_filter cfg 0 r = Some ?s1"
    using ne nf assms
    by (cases "CONFIG_AFSK_FILTER cfg")
      (simp_all add: adc_filter_def Let_def case_prod_beta rx_silent_def)
  have s1: "rx_silent ?s1"
    using assms ds0
    by (simp add: rx_silent_def delay_line_ok_def four fifo_push_def fifo_pop_def it len cap)
  have e: "EDGE_FOUND (sampled_bits ?s1) = 0"
    using assms by (simp add: rx_silent_def EDGE_FOUND_def BIT_DIFFER_def)
  have p: "adc_phase ?s1 = ?s1\<lparr>curr_phase := curr_phase r + PHASE_BIT\<rparr>"
    using e by (simp add: adc_phase_def Let_def)
  have c1: "0 \<le> sint (curr_phase ?s1)" "sint (curr_phase ?s1) < 64"
    using ph by (simp_all add: PHASE_MAX_def)
  note rg = adc_phase_range [OF c1]
  show ?thesis
  proof (cases "sint (curr_phase (adc_phase ?s1)) \<ge> sint PHASE_MAX")
    case False
    then have "adc_isr cfg 0 r = Some (adc_phase ?s1)"
      by (intro adc_isr_hold [OF f]) simp
    moreover have "rx_silent (adc_phase ?s1)"
      using s1 rg False unfolding p by (simp add: rx_silent_def delay_line_ok_def)
    ultimately show ?thesis by blast
  next
    case True
    let ?f = "push_bit 1 (found_bits r) OR (if majority3 (sampled_bits ?s1) then 1 else 0)"
    let ?p = "word_of_int (sint (curr_phase (adc_phase ?s1)) mod 64) :: s8"
    let ?s3 = "(adc_phase ?s1)\<lparr>curr_phase := ?p, found_bits := ?f\<rparr>"
    have f0: "?f = 0"
      using assms by (simp add: rx_silent_def majority3_def)
    from adc_isr_deliver [OF f True]
    have r1: "adc_isr cfg 0 r = Some (hdlc_parse (bit ?f 0 = bit ?f 1) ?s3)"
      and pr: "0 \<le> sint ?p" "sint ?p < sint PHASE_MAX"
      by blast+
    have b: "(bit ?f 0 = bit ?f 1) = True" unfolding f0 by simp
    have s3: "rx_silent ?s3"
      using s1 pr unfolding p f0 by (simp add: rx_silent_def delay_line_ok_def)
    then have n: "\<not> hdlc_rxstart ?s3" by (simp add: rx_silent_def)
    have "rx_silent (hdlc_parse True ?s3)"
      using s3 unfolding rx_silent_def delay_line_ok_def
      by (simp only: hdlc_parse_one_idle [OF n] hdlc_parse_fields) simp
    with r1 b show ?thesis by simp
  qed
qed

lemma run_silent:
  assumes "rx_silent r"
  shows "\<exists>r1. run cfg (replicate n (ADC_IRQ 0)) (t, r) = Some (t, r1) \<and> rx_silent r1"
  using assms
proof (induction n arbitrary: r)
  case 0
  then show ?case by simp
next
  case (Suc n)
  from adc_isr_silent [OF Suc.prems, of cfg] obtain r1 where
    a: "adc_isr cfg 0 r = Some r1" and s: "rx_silent r1" by blast
  from Suc.IH [OF s] a show ?case by simp
qed

text \<open>
  On a line that carries silence (every ADC sample is zero) the deframer never pushes
  a byte: after any number of ADC interrupts from the initial state the RX FIFO is
  still empty. This is the line on which the read of claim C1 is tried.
\<close>

lemma silent_line_delivers_nothing:
  "\<exists>r. run cfg (replicate n (ADC_IRQ 0)) (afsk_init cfg) = Some (init_tx cfg, r)
       \<and> fifo_isempty (rx_fifo r)"
proof -
  have "set (replicate (SAMPLEPERBIT div 2) (0 :: s8)) \<subseteq> {0}" by auto
  then have "rx_silent (init_rx cfg)"
    using init_ok(2) [of cfg]
    by (simp add: rx_silent_def init_rx_def fifo_init_def fifo_isempty_def PHASE_MAX_def)
  from run_silent [OF this, of cfg n "init_tx cfg"] show ?thesis
    by (auto simp add: afsk_init_def rx_silent_def)
qed

section \<open>The read endpoint\<close>

lemma isr_deliver_nonempty:
  "\<not> fifo_isempty fb \<Longrightarrow> \<not> fifo_isempty (isr_deliver fb cs)"
  unfolding isr_deliver_def
  by (induction cs arbitrary: fb) (simp_all add: fifo_isempty_def fifo_push_def)

lemma rx_spin_nonempty:
  assumes "rx_spin env r = Some r1"
  shows "\<not> fifo_isempty (rd_fifo r1)"
proof (rule rx_spin.raw_induct [where P = "\<lambda>env r y. \<not> fifo_isempty (rd_fifo y)"])
  show "rx_spin env r = Some r1" by (fact assms)
next
  fix spin :: "rx_env \<Rightarrow> reader \<Rightarrow> reader option" and env r y
  assume IH: "\<And>env r y. spin env r = Some y \<Longrightarrow> \<not> fifo_isempty (rd_fifo y)"
    and eq: "(if fifo_isempty (rd_fifo r) then spin env (elapse env r) else Some r) = Some y"
  show "\<not> fifo_isempty (rd_fifo y)"
  proof (cases "fifo_isempty (rd_fifo r)")
    case True
    with eq have "spin env (elapse env r) = Some y" by simp
    then show ?thesis by (rule IH)
  next
    case False
    with eq show ?thesis by simp
  qed
qed

text \<open>
  The pop of \<^verbatim>\<open>afsk_read\<close> is within the contract of the queue: when the spin loop
  ends, the RX FIFO holds a byte, and it still does after \<^verbatim>\<open>cpu_relax()\<close>.
\<close>

lemma afsk_read_pop_guarded:
  assumes "rx_spin env r = Some r1"
  shows "\<not> fifo_isempty (rd_fifo (elapse env r1))"
  using rx_spin_nonempty [OF assms] by (simp add: elapse_def isr_deliver_nonempty)


lemma elapse_idle:
  assumes "\<forall>k. isr_push env k = []" and "fifo_isempty (rd_fifo r)"
  shows "fifo_isempty (rd_fifo (elapse env r))"
  using assms by (simp add: elapse_def isr_deliver_def)

lemma rx_spin_Some_nonempty:
  assumes "rx_spin env r = Some y"
  shows "(\<forall>k. isr_push env k = []) \<longrightarrow> \<not> fifo_isempty (rd_fifo r)"
proof (rule rx_spin.raw_induct
    [where P = "\<lambda>env r y. (\<forall>k. isr_push env k = []) \<longrightarrow> \<not> fifo_isempty (rd_fifo r)"])
  show "rx_spin env r = Some y" by (fact assms)
next
  fix spin :: "rx_env \<Rightarrow> reader \<Rightarrow> reader option" and env r y
  assume IH: "\<And>env r y. spin env r = Some y \<Longrightarrow>
      (\<forall>k. isr_push env k = []) \<longrightarrow> \<not> fifo_isempty (rd_fifo r)"
    and eq: "(if fifo_isempty (rd_fifo r) then spin env (elapse env r) else Some r) = Some y"
  show "(\<forall>k. isr_push env k = []) \<longrightarrow> \<not> fifo_isempty (rd_fifo r)"
  proof (intro impI notI)
    assume idle: "\<forall>k. isr_push env k = []" and e: "fifo_isempty (rd_fifo r)"
    with eq have sp: "spin env (elapse env r) = Some y" by simp
    from IH [OF sp] idle have "\<not> fifo_isempty (rd_fifo (elapse env r))" by simp
    with elapse_idle [OF idle e] show False by simp
  qed
qed

lemma rx_spin_idle:
  assumes "\<forall>k. isr_push env k = []" and "fifo_isempty (rd_fifo r)"
  shows "rx_spin env r = None"
proof (cases "rx_spin env r")
  case None
  then show ?thesis .
next
  case (Some y)
  from rx_spin_Some_nonempty [OF Some] assms show ?thesis by simp
qed

lemma afsk_read_idle:
  assumes "\<forall>k. isr_push env k = []" and "fifo_isempty (rd_fifo r)"
    and "CONFIG_AFSK_RXTIMEOUT cfg \<noteq> 0"
  shows "afsk_read cfg env (Suc n) r = None"
  using assms by (simp add: afsk_read_def rx_spin_idle Let_def)

text \<open>
  Claim C1 on the code. With a timeout of 1000 ms, a read of one byte from an empty
  RX FIFO on a line on which nothing arrives does not return: the loop
  \<^verbatim>\<open>while (fifo_isempty_locked(&rx_fifo));\<close> has an empty body, and the comparison of the
  elapsed time with the timeout is only reached after it.
\<close>

theorem afsk_read_timeout_never_returns:
  "afsk_read cfg_timeout idle_line 1 reader_empty = None"
proof -
  have "\<forall>k. isr_push idle_line k = []" by (simp add: idle_line_def)
  moreover have "fifo_isempty (rd_fifo reader_empty)"
    by (simp add: reader_empty_def fifo_init_def fifo_isempty_def)
  moreover have "CONFIG_AFSK_RXTIMEOUT cfg_timeout \<noteq> 0"
    by (simp add: cfg_timeout_def cfg_example_def)
  ultimately show ?thesis
    using afsk_read_idle [of idle_line reader_empty cfg_timeout 0] by simp
qed


text \<open>With a byte in the RX FIFO the same read returns it.\<close>

lemma afsk_read_available:
  "afsk_read cfg_timeout idle_line 1 (reader_empty\<lparr>rd_fifo := \<lparr>items = [0x7E], capacity = 31\<rparr>\<rparr>)
     = Some ([0x7E], \<lparr>rd_fifo = \<lparr>items = [], capacity = 31\<rparr>, rd_now = 1\<rparr>)"
proof -
  let ?r = "reader_empty\<lparr>rd_fifo := \<lparr>items = [0x7E], capacity = 31\<rparr>\<rparr>"
  have s: "rx_spin idle_line ?r = Some ?r"
    by (subst rx_spin.simps) (simp add: fifo_isempty_def)
  have e: "elapse idle_line ?r = \<lparr>rd_fifo = \<lparr>items = [0x7E], capacity = 31\<rparr>, rd_now = 1\<rparr>"
    by (simp add: elapse_def idle_line_def isr_deliver_def reader_empty_def)
  show ?thesis
    unfolding afsk_read_def One_nat_def afsk_read_loop.simps s Let_def option.case e
    by (simp add: cfg_timeout_def cfg_example_def fifo_isempty_def fifo_pop_def
        idle_line_def reader_empty_def)
qed

end
